theory Spec2Isabelle
  imports Complex_Main "HOL-Library.Monad_Syntax" "HOL-Library.Word"
begin

section \<open>The pong game of interactive\_marker\_tutorials/src/pong.cpp\<close>

text \<open>
  The C++ \<^verbatim>\<open>float\<close>s of the game are modelled as real numbers: every operation is
  exact, rounding is not modelled. A division whose divisor is zero has no real value
  (IEEE arithmetic yields an infinity or a NaN there): it is the value \<open>None\<close>, and a
  computation that consumes such a value is \<open>None\<close> as a whole.

  What comes from outside is not bound to be a number: the coordinates of a pose, and the
  paddle position copied from one, are IEEE values (a number, an infinity or a NaN).

  Of the marker server the model keeps the poses given to \<^verbatim>\<open>setPose\<close>. The markers the
  game inserts, \<^verbatim>\<open>publishUpdate\<close>, the timer, the mutex and the sleep after a point are
  left out. The \<^verbatim>\<open>int\<close> of a score is a 32-bit word, read as a signed number. C++
  leaves the overflow of its increment undefined; the model takes the wrap-around of the
  two's complement.
\<close>

subsection \<open>Constants\<close>

definition FIELD_WIDTH :: real where "FIELD_WIDTH = 12.0"
definition FIELD_HEIGHT :: real where "FIELD_HEIGHT = 8.0"
definition BORDER_SIZE :: real where "BORDER_SIZE = 0.5"
definition PADDLE_SIZE :: real where "PADDLE_SIZE = 2.0"
definition UPDATE_RATE :: real where "UPDATE_RATE = 1.0 / 30.0"

subsection \<open>Data\<close>

text \<open>
  The values of a \<^verbatim>\<open>float\<close> or \<^verbatim>\<open>double\<close> that arrives from outside, with the
  comparisons and the sums the game applies to one. A comparison with a NaN is false.
\<close>

datatype ieee = Finite real | PosInf | NegInf | NaN

fun ieee_less :: "ieee \<Rightarrow> ieee \<Rightarrow> bool" where
  "ieee_less (Finite x) (Finite y) \<longleftrightarrow> x < y"
| "ieee_less (Finite x) PosInf \<longleftrightarrow> True"
| "ieee_less NegInf (Finite y) \<longleftrightarrow> True"
| "ieee_less NegInf PosInf \<longleftrightarrow> True"
| "ieee_less _ _ \<longleftrightarrow> False"

fun ieee_add :: "ieee \<Rightarrow> real \<Rightarrow> ieee" where
  "ieee_add (Finite x) c = Finite (x + c)"
| "ieee_add v c = v"

fun ieee_sub :: "ieee \<Rightarrow> real \<Rightarrow> ieee" where
  "ieee_sub (Finite x) c = Finite (x - c)"
| "ieee_sub v c = v"

text \<open>\<^verbatim>\<open>struct PlayerContext\<close>, with its default constructor.\<close>

record PlayerContext =
  pos :: ieee
  active :: bool
  score :: "32 word"

definition PlayerContext0 :: PlayerContext where
  "PlayerContext0 = \<lparr>pos = Finite 0, active = False, score = 0\<rparr>"

text \<open>
  The part of a \<^verbatim>\<open>geometry_msgs::Pose\<close> the game reads and writes, and the poses the
  marker server was last given, by marker name (\<^verbatim>\<open>server_.setPose\<close>).
\<close>

record Pose =
  position_x :: ieee
  position_y :: ieee

text \<open>The members of \<^verbatim>\<open>class PongGame\<close> (the trailing underscore of each name dropped).\<close>

record pong_game =
  server :: "string \<rightharpoonup> Pose"
  player_contexts :: "PlayerContext list"
  last_ball_pos_x :: real
  last_ball_pos_y :: real
  ball_pos_x :: real
  ball_pos_y :: real
  ball_dir_x :: real
  ball_dir_y :: real
  speed :: real

text \<open>The event types of \<^verbatim>\<open>visualization_msgs::InteractiveMarkerFeedback\<close>.\<close>

datatype event_type = KEEP_ALIVE | POSE_UPDATE | MENU_SELECT | BUTTON_CLICK | MOUSE_DOWN | MOUSE_UP

record InteractiveMarkerFeedback =
  marker_name :: string
  pose :: Pose
  event_type :: event_type

text \<open>
  The branches of \<^verbatim>\<open>spinOnce\<close> that ran in a tick, in order: a ghost log, which the
  source does not keep. \<open>Score p\<close> names the player whose score went up.
\<close>

datatype event = WallBounce | PaddleBounce | Score nat

text \<open>The local variables of \<^verbatim>\<open>spinOnce\<close>, with the game and the log.\<close>

record frame =
  game :: pong_game
  loc_t :: real
  ball_dx :: real
  ball_dy :: real
  player :: nat
  events :: "event list"

subsection \<open>Operations\<close>

definition fdiv :: "real \<Rightarrow> real \<Rightarrow> real option" where
  "fdiv a b = (if b = 0 then None else Some (a / b))"

text \<open>
  \<^verbatim>\<open>bool reflect( float &pos, float last_pos, float limit, float &t )\<close>: the result is
  the returned flag and the value of \<open>t\<close> after the call.
\<close>

definition reflect :: "real \<Rightarrow> real \<Rightarrow> real \<Rightarrow> real \<Rightarrow> bool \<times> real option" where
  "reflect p last_pos limit t =
     (if p > limit then (True, fdiv (p - limit) (p - last_pos))
      else if - p > limit then (True, fdiv (- p - limit) (last_pos - p))
      else (False, Some t))"

definition normalizeVel :: "pong_game \<Rightarrow> pong_game option" where
  "normalizeVel s =
     (let l = sqrt (ball_dir_x s * ball_dir_x s + ball_dir_y s * ball_dir_y s)
      in if l = 0 then None
         else Some (s\<lparr>ball_dir_x := ball_dir_x s / l, ball_dir_y := ball_dir_y s / l\<rparr>))"

text \<open>\<^verbatim>\<open>reset()\<close>; \<open>r\<close> is the value \<^verbatim>\<open>rand()\<close> returns.\<close>

definition reset :: "pong_game \<Rightarrow> int \<Rightarrow> pong_game option" where
  "reset s r =
     normalizeVel (s\<lparr>speed := 5.0 * UPDATE_RATE,
                     ball_pos_x := 0.0,
                     ball_pos_y := 0.0,
                     ball_dir_x := (if ball_dir_x s > 0.0 then 1.0 else - 1.0),
                     ball_dir_y := (if r mod 2 \<noteq> 0 then 1.0 else - 1.0)\<rparr>)"

definition updateBall :: "pong_game \<Rightarrow> pong_game" where
  "updateBall s =
     s\<lparr>server := (server s)(''ball'' \<mapsto> \<lparr>position_x = Finite (ball_pos_x s),
                                         position_y = Finite (ball_pos_y s)\<rparr>)\<rparr>"

text \<open>
  The constructor: \<open>u\<close> is the indeterminate value the uninitialised member
  \<^verbatim>\<open>ball_dir_x_\<close> holds when \<^verbatim>\<open>reset()\<close> reads it, \<open>p\<close> and \<open>v\<close> those of the ball position
  and the speed, which \<^verbatim>\<open>reset()\<close> overwrites.
\<close>

definition PongGame :: "real \<Rightarrow> real \<Rightarrow> real \<Rightarrow> int \<Rightarrow> pong_game option" where
  "PongGame u p v r =
     reset \<lparr>server = Map.empty,
            player_contexts = replicate 2 PlayerContext0,
            last_ball_pos_x = 0, last_ball_pos_y = 0,
            ball_pos_x = p, ball_pos_y = p,
            ball_dir_x = u, ball_dir_y = u,
            speed = v\<rparr> r"

text \<open>Lines 76--80 of \<^verbatim>\<open>spinOnce\<close>: the displacement of the tick, applied.\<close>

definition advance :: "pong_game \<Rightarrow> frame" where
  "advance s =
     (let dx = speed s * ball_dir_x s;
          dy = speed s * ball_dir_y s
      in \<lparr>game = s\<lparr>ball_pos_x := ball_pos_x s + dx, ball_pos_y := ball_pos_y s + dy\<rparr>,
          loc_t = 0, ball_dx = dx, ball_dy = dy, player = 0, events = []\<rparr>)"

text \<open>Lines 83--95: bounce off top / bottom.\<close>

definition bounce_walls :: "frame \<Rightarrow> frame option" where
  "bounce_walls f =
     (let s = game f;
          (hit, t') = reflect (ball_pos_y s) (last_ball_pos_y s) (FIELD_HEIGHT * 0.5) (loc_t f)
      in if hit then
           (case t' of
              None \<Rightarrow> None
            | Some t \<Rightarrow>
               (let s1 = s\<lparr>ball_pos_x := ball_pos_x s - t * ball_dx f,
                           ball_pos_y := ball_pos_y s - t * ball_dy f\<rparr>;
                    s2 = s1\<lparr>ball_dir_y := ball_dir_y s1 * - 1.0\<rparr>;
                    dx = speed s2 * ball_dir_x s2;
                    dy = speed s2 * ball_dir_y s2;
                    s3 = s2\<lparr>ball_pos_x := ball_pos_x s2 + t * dx,
                            ball_pos_y := ball_pos_y s2 + t * dy\<rparr>
                in Some (f\<lparr>game := s3, loc_t := t, ball_dx := dx, ball_dy := dy,
                           events := events f @ [WallBounce]\<rparr>)))
         else Some f)"

text \<open>Lines 119--125: limit angle to 45 deg.\<close>

definition limit_angle :: "pong_game \<Rightarrow> pong_game option" where
  "limit_angle s =
     (if \<bar>ball_dir_y s\<bar> > 0.707106781 then
        normalizeVel (s\<lparr>ball_dir_x := (if ball_dir_x s > 0.0 then 1.0 else - 1.0),
                        ball_dir_y := (if ball_dir_y s > 0.0 then 1.0 else - 1.0)\<rparr>)
      else Some s)"

text \<open>
  Lines 97--132: reflect on paddles. Where both comparisons of line 104 hold, the paddle
  position is a number.
\<close>

definition reflect_paddles :: "frame \<Rightarrow> frame option" where
  "reflect_paddles f0 =
     (let s = game f0;
          pl = (if ball_pos_x s > 0 then 1 else 0);
          f = f0\<lparr>player := pl\<rparr>
      in if \<bar>last_ball_pos_x s\<bar> < FIELD_WIDTH * 0.5 \<and> \<bar>ball_pos_x s\<bar> \<ge> FIELD_WIDTH * 0.5 then
           if ieee_less (ieee_sub (ieee_sub (pos (player_contexts s ! pl)) (PADDLE_SIZE * 0.5))
                          (0.5 * BORDER_SIZE)) (Finite (ball_pos_y s)) \<and>
              ieee_less (Finite (ball_pos_y s))
                (ieee_add (ieee_add (pos (player_contexts s ! pl)) (PADDLE_SIZE * 0.5)) (0.5 * BORDER_SIZE))
           then
             (case snd (reflect (ball_pos_x s) (last_ball_pos_x s) (FIELD_WIDTH * 0.5) (loc_t f)) of
                None \<Rightarrow> None
              | Some t \<Rightarrow>
                 (let s1 = s\<lparr>ball_pos_x := ball_pos_x s - t * ball_dx f,
                             ball_pos_y := ball_pos_y s - t * ball_dy f\<rparr>
                  in case pos (player_contexts s1 ! pl) of
                       Finite p \<Rightarrow>
                         (let offset = (ball_pos_y s1 - p) / PADDLE_SIZE;
                              s2 = s1\<lparr>ball_dir_x := ball_dir_x s1 * - 1.0,
                                      ball_dir_y := ball_dir_y s1 + offset * 2.0\<rparr>
                          in do {
                               s3 \<leftarrow> normalizeVel s2;
                               s4 \<leftarrow> limit_angle s3;
                               let dx = speed s4 * ball_dir_x s4;
                               let dy = speed s4 * ball_dir_y s4;
                               let s5 = s4\<lparr>ball_pos_x := ball_pos_x s4 + t * dx,
                                           ball_pos_y := ball_pos_y s4 + t * dy\<rparr>;
                               Some (f\<lparr>game := s5, loc_t := t, ball_dx := dx, ball_dy := dy,
                                       events := events f @ [PaddleBounce]\<rparr>)
                             })
                     | _ \<Rightarrow> None))
           else Some f
         else Some f)"

text \<open>Lines 134--152: ball hits the left/right border of the playing field.\<close>

definition check_border :: "frame \<Rightarrow> int \<Rightarrow> frame option" where
  "check_border f r =
     (let s = game f
      in if \<bar>ball_pos_x s\<bar> \<ge> FIELD_WIDTH * 0.5 + 1.5 * BORDER_SIZE then
           (case snd (reflect (ball_pos_x s) (last_ball_pos_x s)
                        (FIELD_WIDTH * 0.5 + 1.5 * BORDER_SIZE) (loc_t f)) of
              None \<Rightarrow> None
            | Some t \<Rightarrow>
               (let s1 = updateBall (s\<lparr>ball_pos_x := ball_pos_x s - t * ball_dx f,
                                       ball_pos_y := ball_pos_y s - t * ball_dy f\<rparr>);
                    w = 1 - player f;
                    pc = player_contexts s1 ! w;
                    s2 = s1\<lparr>player_contexts := (player_contexts s1)[w := pc\<lparr>score := score pc + 1\<rparr>]\<rparr>
                in do {
                     s3 \<leftarrow> reset s2 r;
                     Some (f\<lparr>game := s3, loc_t := t, events := events f @ [Score w]\<rparr>)
                   }))
         else Some (f\<lparr>game := updateBall s\<rparr>))"

text \<open>
  \<^verbatim>\<open>spinOnce\<close>, the tick of the game loop; \<open>r\<close> is the value \<^verbatim>\<open>rand()\<close> returns if
  the tick calls it. The result is the game after the tick and the log of the tick.
\<close>

definition spinOnce :: "pong_game \<Rightarrow> int \<Rightarrow> (pong_game \<times> event list) option" where
  "spinOnce s r =
     (if active (player_contexts s ! 0) \<and> active (player_contexts s ! 1) then
        do {
          f1 \<leftarrow> bounce_walls (advance s);
          f2 \<leftarrow> reflect_paddles f1;
          f3 \<leftarrow> check_border f2 r;
          let s' = game f3;
          Some (s'\<lparr>last_ball_pos_x := ball_pos_x s',
                   last_ball_pos_y := ball_pos_y s',
                   speed := speed s' + 0.0002\<rparr>, events f3)
        }
      else Some (s, []))"

text \<open>
  \<^verbatim>\<open>processPaddleFeedback\<close>: the clamped pose goes to the server under the name of the
  marker, if it was clamped, and under the name of its display marker.
\<close>

definition processPaddleFeedback :: "nat \<Rightarrow> InteractiveMarkerFeedback \<Rightarrow> pong_game \<Rightarrow> pong_game" where
  "processPaddleFeedback pl feedback s =
     (if pl > 1 then s
      else
        (let control_marker_name = marker_name feedback;
             p0 = pose feedback;
             hi = (FIELD_HEIGHT - PADDLE_SIZE) * 0.5;
             lo = (FIELD_HEIGHT - PADDLE_SIZE) * - 0.5;
             (p1, sv1) = (if ieee_less (Finite hi) (position_y p0)
                          then (p0\<lparr>position_y := Finite hi\<rparr>,
                                (server s)(control_marker_name \<mapsto> p0\<lparr>position_y := Finite hi\<rparr>))
                          else (p0, server s));
             (p2, sv2) = (if ieee_less (position_y p1) (Finite lo)
                          then (p1\<lparr>position_y := Finite lo\<rparr>,
                                sv1(control_marker_name \<mapsto> p1\<lparr>position_y := Finite lo\<rparr>))
                          else (p1, sv1));
             pc = (player_contexts s ! pl)\<lparr>pos := position_y p2\<rparr>;
             pc1 = (if event_type feedback = MOUSE_DOWN then pc\<lparr>active := False\<rparr> else pc);
             pc2 = (if event_type feedback = MOUSE_UP then pc1\<lparr>active := True\<rparr> else pc1)
         in s\<lparr>player_contexts := (player_contexts s)[pl := pc2],
              server := sv2(marker_name feedback @ ''_display'' \<mapsto> p2)\<rparr>))"

subsection \<open>Reachable games, and what the claims name\<close>

text \<open>
  The games a run can be in: the constructor's, and then any sequence of ticks and
  paddle feedback.
\<close>

inductive reachable :: "pong_game \<Rightarrow> bool" where
  construct: "PongGame u p v r = Some s \<Longrightarrow> reachable s"
| tick: "reachable s \<Longrightarrow> spinOnce s r = Some (s', evs) \<Longrightarrow> reachable s'"
| feedback: "reachable s \<Longrightarrow> reachable (processPaddleFeedback pl fb s)"

definition unit_dir :: "pong_game \<Rightarrow> bool" where
  "unit_dir s \<longleftrightarrow> (ball_dir_x s)\<^sup>2 + (ball_dir_y s)\<^sup>2 = 1"

text \<open>
  What holds of every reachable game: two players, each paddle position a NaN or a number
  within the clamp range; the previous position equal to the position; a unit direction
  no steeper than 45 degrees; the ball short of the outer boundary; a ball that flies
  horizontally between the walls, and a ball beyond a wall flying away from the field; a
  speed that is the serve value plus a number of increments.
\<close>

definition paddle_ok :: "ieee \<Rightarrow> bool" where
  "paddle_ok v \<longleftrightarrow>
     (case v of Finite p \<Rightarrow> \<bar>p\<bar> \<le> (FIELD_HEIGHT - PADDLE_SIZE) * 0.5 | NaN \<Rightarrow> True | _ \<Rightarrow> False)"

definition well_formed :: "pong_game \<Rightarrow> bool" where
  "well_formed s \<longleftrightarrow>
     length (player_contexts s) = 2 \<and>
     (\<forall>i<2. paddle_ok (pos (player_contexts s ! i))) \<and>
     last_ball_pos_x s = ball_pos_x s \<and> last_ball_pos_y s = ball_pos_y s \<and>
     unit_dir s \<and> \<bar>ball_dir_y s\<bar> \<le> sqrt 2 / 2 \<and>
     \<bar>ball_pos_x s\<bar> < FIELD_WIDTH * 0.5 + 1.5 * BORDER_SIZE \<and>
     (ball_dir_y s = 0 \<longrightarrow> \<bar>ball_pos_y s\<bar> \<le> FIELD_HEIGHT * 0.5) \<and>
     (FIELD_HEIGHT * 0.5 < ball_pos_y s \<longrightarrow> 0 \<le> ball_dir_y s) \<and>
     (ball_pos_y s < - (FIELD_HEIGHT * 0.5) \<longrightarrow> ball_dir_y s \<le> 0) \<and>
     (\<exists>k::nat. speed s = 5 * UPDATE_RATE + real k * 0.0002)"

text \<open>
  The y-coordinate of the point where the ball crossed the goal line, in a frame whose
  ball has crossed it: the position backed up by the fraction \<^verbatim>\<open>reflect\<close> computes for
  the goal line, as lines 107--109 do.
\<close>

definition crossing_y :: "frame \<Rightarrow> real" where
  "crossing_y f =
     ball_pos_y (game f) -
     the (snd (reflect (ball_pos_x (game f)) (last_ball_pos_x (game f)) (FIELD_WIDTH * 0.5) (loc_t f))) *
     ball_dy f"

text \<open>
  A game in play, for the examples: both players active with no points, the paddle of
  player 0 at 0 and that of player 1 at \<open>p1\<close>, as their display markers show; the ball
  at \<open>(x, y)\<close>, where the tick before left and reported it, with direction \<open>(dx, dy)\<close>
  and speed \<open>v\<close>.
\<close>

definition in_play :: "real \<Rightarrow> real \<Rightarrow> real \<Rightarrow> real \<Rightarrow> real \<Rightarrow> real \<Rightarrow> pong_game" where
  "in_play x y dx dy v p1 =
     \<lparr>server = [''paddle0_display'' \<mapsto> \<lparr>position_x = Finite (- 6.5), position_y = Finite 0\<rparr>,
                ''paddle1_display'' \<mapsto> \<lparr>position_x = Finite 6.5, position_y = Finite p1\<rparr>,
                ''ball'' \<mapsto> \<lparr>position_x = Finite x, position_y = Finite y\<rparr>],
      player_contexts = [\<lparr>pos = Finite 0, active = True, score = 0\<rparr>,
                         \<lparr>pos = Finite p1, active = True, score = 0\<rparr>],
      last_ball_pos_x = x, last_ball_pos_y = y,
      ball_pos_x = x, ball_pos_y = y,
      ball_dir_x = dx, ball_dir_y = dy,
      speed = v\<rparr>"

text \<open>The feedback of a drag of the paddle of player 1 to \<open>y\<close>.\<close>

definition drag_to :: "ieee \<Rightarrow> InteractiveMarkerFeedback" where
  "drag_to y = \<lparr>marker_name = ''paddle1'', pose = \<lparr>position_x = Finite 6.5, position_y = y\<rparr>,
                event_type = POSE_UPDATE\<rparr>"

text \<open>
  The example games of the theorems below. Each has the direction \<open>(0.8, \<plusminus>0.6)\<close> or
  \<open>(1, 0)\<close> and the speed of the 2500th tick of a rally, \<open>2/3\<close>.
\<close>

definition near_top_wall :: pong_game where
  "near_top_wall = in_play 0 3.9 0.8 0.6 (2 / 3) 0"

definition near_bottom_wall :: pong_game where
  "near_bottom_wall = in_play 0 (- 3.9) 0.8 (- 0.6) (2 / 3) 0"

definition mid_field :: pong_game where
  "mid_field = in_play 0 0 0.8 0.6 (2 / 3) 0"

definition beside_paddle :: pong_game where
  "beside_paddle = in_play 5.9 1.0 0.8 0.6 (2 / 3) 0"

definition before_paddle :: pong_game where
  "before_paddle = in_play 5.9 0 1 0 (2 / 3) 0"

definition before_paddle_edge :: pong_game where
  "before_paddle_edge = in_play (88 / 15) 0.8 0.8 0.6 (2 / 3) 0"

definition past_paddle :: pong_game where
  "past_paddle = in_play 6.4 0 1 0 (2 / 3) 3"

text \<open>The game \<open>past_paddle\<close> with player 0 at \<^verbatim>\<open>INT_MAX\<close> points.\<close>

definition past_paddle_at_int_max :: pong_game where
  "past_paddle_at_int_max =
     past_paddle\<lparr>player_contexts := [\<lparr>pos = Finite 0, active = True, score = 2147483647\<rparr>,
                                    \<lparr>pos = Finite 3, active = True, score = 0\<rparr>]\<rparr>"

definition top_right_corner :: pong_game where
  "top_right_corner = in_play (88 / 15) 3.7 0.8 0.6 (2 / 3) 3"

definition past_paddle_near_top_wall :: pong_game where
  "past_paddle_near_top_wall = in_play 6.5 3.7 0.8 0.6 (2 / 3) 0"


text \<open>The feedback of a release of the mouse button on the marker \<open>n\<close>.\<close>

definition release :: "string \<Rightarrow> InteractiveMarkerFeedback" where
  "release n = \<lparr>marker_name = n, pose = \<lparr>position_x = Finite 0, position_y = Finite 0\<rparr>,
                event_type = MOUSE_UP\<rparr>"

text \<open>
  The game the constructor leaves when the uninitialised members hold 0 and \<^verbatim>\<open>rand()\<close>
  returns 1, and that game once both players have released their paddles.
\<close>

definition kickoff :: pong_game where
  "kickoff = \<lparr>server = Map.empty,
      player_contexts = [PlayerContext0, PlayerContext0],
      last_ball_pos_x = 0, last_ball_pos_y = 0,
      ball_pos_x = 0, ball_pos_y = 0,
      ball_dir_x = - 1 / sqrt 2, ball_dir_y = 1 / sqrt 2,
      speed = 5 * UPDATE_RATE\<rparr>"

definition first_serve :: pong_game where
  "first_serve =
     processPaddleFeedback 1 (release ''paddle1'') (processPaddleFeedback 0 (release ''paddle0'') kickoff)"

section \<open>Properties\<close>

lemmas field_consts = FIELD_WIDTH_def FIELD_HEIGHT_def BORDER_SIZE_def PADDLE_SIZE_def UPDATE_RATE_def

lemmas tick_defs = spinOnce_def advance_def bounce_walls_def reflect_paddles_def check_border_def
  reflect_def fdiv_def normalizeVel_def limit_angle_def reset_def updateBall_def

subsection \<open>Normalisation, serve and angle limit\<close>

lemma normalizeVel_SomeD:
  assumes "normalizeVel s = Some s'"
  shows "\<exists>l>0. s' = s\<lparr>ball_dir_x := ball_dir_x s / l, ball_dir_y := ball_dir_y s / l\<rparr> \<and>
               l\<^sup>2 = (ball_dir_x s)\<^sup>2 + (ball_dir_y s)\<^sup>2"
proof -
  let ?q = "ball_dir_x s * ball_dir_x s + ball_dir_y s * ball_dir_y s"
  have q: "0 \<le> ?q" by simp
  from assms have nz: "sqrt ?q \<noteq> 0"
    and eq: "s' = s\<lparr>ball_dir_x := ball_dir_x s / sqrt ?q, ball_dir_y := ball_dir_y s / sqrt ?q\<rparr>"
    by (auto simp: normalizeVel_def Let_def split: if_splits)
  have "0 \<le> sqrt ?q" using q by simp
  with nz have pos: "0 < sqrt ?q" by linarith
  have "(sqrt ?q)\<^sup>2 = ?q" using q by simp
  then have "(sqrt ?q)\<^sup>2 = (ball_dir_x s)\<^sup>2 + (ball_dir_y s)\<^sup>2"
    by (simp add: power2_eq_square)
  with pos eq show ?thesis by blast
qed

lemma normalizeVel_unit:
  assumes "normalizeVel s = Some s'"
  shows "unit_dir s'"
proof -
  from normalizeVel_SomeD [OF assms] obtain l where l: "0 < l"
    and s': "s' = s\<lparr>ball_dir_x := ball_dir_x s / l, ball_dir_y := ball_dir_y s / l\<rparr>"
    and sq: "l\<^sup>2 = (ball_dir_x s)\<^sup>2 + (ball_dir_y s)\<^sup>2" by blast
  have "(ball_dir_x s / l)\<^sup>2 + (ball_dir_y s / l)\<^sup>2 = ((ball_dir_x s)\<^sup>2 + (ball_dir_y s)\<^sup>2) / l\<^sup>2"
    by (simp add: power_divide add_divide_distrib)
  also have "\<dots> = 1" using l by (simp add: sq [symmetric])
  finally show ?thesis by (simp add: unit_dir_def s')
qed

lemma normalizeVel_diag:
  assumes "\<bar>ball_dir_x s\<bar> = 1" "\<bar>ball_dir_y s\<bar> = 1"
  shows "normalizeVel s = Some (s\<lparr>ball_dir_x := ball_dir_x s / sqrt 2, ball_dir_y := ball_dir_y s / sqrt 2\<rparr>)"
proof -
  have "ball_dir_x s * ball_dir_x s = 1" "ball_dir_y s * ball_dir_y s = 1"
    using assms by (auto simp: abs_if split: if_splits)
  then show ?thesis by (simp add: normalizeVel_def Let_def)
qed

lemma inv_sqrt2: "1 / sqrt 2 = sqrt 2 / 2"
  by (simp add: field_simps)

lemma two_div_sqrt2: "2 / sqrt 2 = sqrt 2"
  by (simp add: real_div_sqrt)

lemma reset_Some:
  "reset s r = Some (s\<lparr>speed := 5 * UPDATE_RATE, ball_pos_x := 0, ball_pos_y := 0,
      ball_dir_x := (if ball_dir_x s > 0 then 1 else - 1) / sqrt 2,
      ball_dir_y := (if r mod 2 \<noteq> 0 then 1 else - 1) / sqrt 2\<rparr>)"
  unfolding reset_def by (subst normalizeVel_diag) auto

lemma threshold_below_sin45: "(0.707106781::real) < sqrt 2 / 2"
proof -
  have "(2 * 0.707106781::real)\<^sup>2 < 2" by (simp add: power2_eq_square)
  then have "2 * 0.707106781 < sqrt 2" by (rule real_less_rsqrt)
  then show ?thesis by simp
qed

lemma limit_angle_SomeD:
  assumes "limit_angle s = Some s'"
  shows "(\<bar>ball_dir_y s\<bar> \<le> 0.707106781 \<and> s' = s) \<or>
         (\<bar>ball_dir_y s\<bar> > 0.707106781 \<and>
          s' = s\<lparr>ball_dir_x := (if ball_dir_x s > 0 then 1 else - 1) / sqrt 2,
                 ball_dir_y := (if ball_dir_y s > 0 then 1 else - 1) / sqrt 2\<rparr>)"
proof (cases "\<bar>ball_dir_y s\<bar> > 0.707106781")
  case True
  let ?d = "s\<lparr>ball_dir_x := (if ball_dir_x s > 0.0 then 1.0 else - 1.0),
               ball_dir_y := (if ball_dir_y s > 0.0 then 1.0 else - 1.0)\<rparr>"
  have "normalizeVel ?d = Some (?d\<lparr>ball_dir_x := ball_dir_x ?d / sqrt 2, ball_dir_y := ball_dir_y ?d / sqrt 2\<rparr>)"
    by (rule normalizeVel_diag) auto
  with assms True show ?thesis by (auto simp: limit_angle_def)
next
  case False
  with assms show ?thesis by (auto simp: limit_angle_def)
qed

subsection \<open>The phases of a tick\<close>

lemma reflect_fst: "fst (reflect p l limit t) \<longleftrightarrow> limit < p \<or> limit < - p"
  by (simp add: reflect_def)

lemma reflect_snd:
  "snd (reflect p l limit t) =
     (if limit < p then fdiv (p - limit) (p - l)
      else if limit < - p then fdiv (- p - limit) (l - p) else Some t)"
  by (simp add: reflect_def)

lemma bounce_walls_SomeD:
  assumes "bounce_walls f = Some f'"
  obtains (miss) "\<not> (FIELD_HEIGHT * 0.5 < ball_pos_y (game f) \<or> FIELD_HEIGHT * 0.5 < - ball_pos_y (game f))"
      and "f' = f"
  | (hit) t where "FIELD_HEIGHT * 0.5 < ball_pos_y (game f) \<or> FIELD_HEIGHT * 0.5 < - ball_pos_y (game f)"
      and "snd (reflect (ball_pos_y (game f)) (last_ball_pos_y (game f)) (FIELD_HEIGHT * 0.5) (loc_t f)) = Some t"
      and "game f' = (game f)
             \<lparr>ball_pos_x := ball_pos_x (game f) - t * ball_dx f + t * (speed (game f) * ball_dir_x (game f)),
              ball_pos_y := ball_pos_y (game f) - t * ball_dy f + t * (speed (game f) * - ball_dir_y (game f)),
              ball_dir_y := - ball_dir_y (game f)\<rparr>"
      and "loc_t f' = t" and "ball_dx f' = speed (game f) * ball_dir_x (game f)"
      and "ball_dy f' = speed (game f) * - ball_dir_y (game f)"
      and "events f' = events f @ [WallBounce]" and "player f' = player f"
proof (cases "fst (reflect (ball_pos_y (game f)) (last_ball_pos_y (game f)) (FIELD_HEIGHT * 0.5) (loc_t f))")
  case False
  with assms have "f' = f"
    by (simp add: bounce_walls_def Let_def split: prod.splits)
  with False miss show ?thesis by (simp add: reflect_fst)
next
  case True
  with assms obtain t where
    t: "snd (reflect (ball_pos_y (game f)) (last_ball_pos_y (game f)) (FIELD_HEIGHT * 0.5) (loc_t f)) = Some t"
    by (auto simp: bounce_walls_def Let_def split: prod.splits option.splits)
  with assms True have
    "f' = f\<lparr>game := (game f)
             \<lparr>ball_pos_x := ball_pos_x (game f) - t * ball_dx f + t * (speed (game f) * ball_dir_x (game f)),
              ball_pos_y := ball_pos_y (game f) - t * ball_dy f + t * (speed (game f) * - ball_dir_y (game f)),
              ball_dir_y := - ball_dir_y (game f)\<rparr>,
            loc_t := t, ball_dx := speed (game f) * ball_dir_x (game f),
            ball_dy := speed (game f) * - ball_dir_y (game f),
            events := events f @ [WallBounce]\<rparr>"
    by (auto simp: bounce_walls_def Let_def split: prod.splits option.splits)
  with True t hit show ?thesis by (simp add: reflect_fst)
qed

lemma advance_simps:
  "game (advance s) = s\<lparr>ball_pos_x := ball_pos_x s + speed s * ball_dir_x s,
                          ball_pos_y := ball_pos_y s + speed s * ball_dir_y s\<rparr>"
  "loc_t (advance s) = 0" "ball_dx (advance s) = speed s * ball_dir_x s"
  "ball_dy (advance s) = speed s * ball_dir_y s" "events (advance s) = []"
  by (simp_all add: advance_def Let_def)

lemma paddle_window:
  "ieee_less (ieee_sub (ieee_sub v a) b) (Finite y) \<and> ieee_less (Finite y) (ieee_add (ieee_add v a) b)
   \<longleftrightarrow> (\<exists>p. v = Finite p \<and> p - a - b < y \<and> y < p + a + b)"
  by (cases v) auto

lemma reflect_paddles_SomeD:
  assumes "reflect_paddles f = Some f'"
  defines "pl \<equiv> (if ball_pos_x (game f) > 0 then 1 else 0 :: nat)"
  defines "c \<equiv> \<bar>last_ball_pos_x (game f)\<bar> < FIELD_WIDTH * 0.5 \<and> \<bar>ball_pos_x (game f)\<bar> \<ge> FIELD_WIDTH * 0.5 \<and>
      (\<exists>p. pos (player_contexts (game f) ! pl) = Finite p \<and>
           p - PADDLE_SIZE * 0.5 - 0.5 * BORDER_SIZE < ball_pos_y (game f) \<and>
           ball_pos_y (game f) < p + PADDLE_SIZE * 0.5 + 0.5 * BORDER_SIZE)"
  obtains (miss) "\<not> c" and "f' = f\<lparr>player := pl\<rparr>"
  | (hit) t s3 s4 p where "c"
      and "snd (reflect (ball_pos_x (game f)) (last_ball_pos_x (game f)) (FIELD_WIDTH * 0.5) (loc_t f)) = Some t"
      and "normalizeVel ((game f)
             \<lparr>ball_pos_x := ball_pos_x (game f) - t * ball_dx f,
              ball_pos_y := ball_pos_y (game f) - t * ball_dy f,
              ball_dir_x := - ball_dir_x (game f),
              ball_dir_y := ball_dir_y (game f) +
                 (ball_pos_y (game f) - t * ball_dy f - p) / PADDLE_SIZE * 2\<rparr>)
           = Some s3"
      and "limit_angle s3 = Some s4"
      and "game f' = s4\<lparr>ball_pos_x := ball_pos_x s4 + t * (speed s4 * ball_dir_x s4),
                          ball_pos_y := ball_pos_y s4 + t * (speed s4 * ball_dir_y s4)\<rparr>"
      and "loc_t f' = t" and "ball_dx f' = speed s4 * ball_dir_x s4"
      and "ball_dy f' = speed s4 * ball_dir_y s4"
      and "events f' = events f @ [PaddleBounce]" and "player f' = pl"
      and "pos (player_contexts (game f) ! pl) = Finite p"
      and "p - PADDLE_SIZE * 0.5 - 0.5 * BORDER_SIZE < ball_pos_y (game f)"
      and "ball_pos_y (game f) < p + PADDLE_SIZE * 0.5 + 0.5 * BORDER_SIZE"
proof (cases c)
  case False
  with assms(1) have "f' = f\<lparr>player := pl\<rparr>"
    unfolding c_def pl_def reflect_paddles_def Let_def paddle_window by (auto split: if_splits)
  with False miss show ?thesis by simp
next
  case True
  then obtain p where p: "pos (player_contexts (game f) ! pl) = Finite p"
    and w: "p - PADDLE_SIZE * 0.5 - 0.5 * BORDER_SIZE < ball_pos_y (game f)"
      "ball_pos_y (game f) < p + PADDLE_SIZE * 0.5 + 0.5 * BORDER_SIZE"
    unfolding c_def by blast
  from True assms(1) obtain t where
    t: "snd (reflect (ball_pos_x (game f)) (last_ball_pos_x (game f)) (FIELD_WIDTH * 0.5) (loc_t f)) = Some t"
    unfolding c_def pl_def reflect_paddles_def Let_def paddle_window
    by (auto split: if_splits option.splits)
  let ?s2 = "(game f)
             \<lparr>ball_pos_x := ball_pos_x (game f) - t * ball_dx f,
              ball_pos_y := ball_pos_y (game f) - t * ball_dy f,
              ball_dir_x := - ball_dir_x (game f),
              ball_dir_y := ball_dir_y (game f) +
                 (ball_pos_y (game f) - t * ball_dy f - p) / PADDLE_SIZE * 2\<rparr>"
  from assms(1) True t p obtain s3 s4 where s3: "normalizeVel ?s2 = Some s3" and s4: "limit_angle s3 = Some s4"
    and f': "f' = f\<lparr>player := pl,
        game := s4\<lparr>ball_pos_x := ball_pos_x s4 + t * (speed s4 * ball_dir_x s4),
                      ball_pos_y := ball_pos_y s4 + t * (speed s4 * ball_dir_y s4)\<rparr>,
        loc_t := t, ball_dx := speed s4 * ball_dir_x s4, ball_dy := speed s4 * ball_dir_y s4,
        events := events f @ [PaddleBounce]\<rparr>"
    unfolding c_def pl_def reflect_paddles_def Let_def paddle_window
    by (auto simp: bind_eq_Some_conv split: if_splits)
  from hit [OF True t s3 s4] f' p w show ?thesis by simp
qed

lemma check_border_SomeD:
  assumes "check_border f r = Some f'"
  obtains (no_score) "\<not> \<bar>ball_pos_x (game f)\<bar> \<ge> FIELD_WIDTH * 0.5 + 1.5 * BORDER_SIZE"
      and "f' = f\<lparr>game := updateBall (game f)\<rparr>"
  | (score) t where "\<bar>ball_pos_x (game f)\<bar> \<ge> FIELD_WIDTH * 0.5 + 1.5 * BORDER_SIZE"
      and "snd (reflect (ball_pos_x (game f)) (last_ball_pos_x (game f))
                 (FIELD_WIDTH * 0.5 + 1.5 * BORDER_SIZE) (loc_t f)) = Some t"
      and "game f' = (game f)
             \<lparr>server := (server (game f))(''ball'' \<mapsto>
                  \<lparr>position_x = Finite (ball_pos_x (game f) - t * ball_dx f),
                   position_y = Finite (ball_pos_y (game f) - t * ball_dy f)\<rparr>),
              player_contexts := (player_contexts (game f))
                 [1 - player f := (player_contexts (game f) ! (1 - player f))
                    \<lparr>score := score (player_contexts (game f) ! (1 - player f)) + 1\<rparr>],
              speed := 5 * UPDATE_RATE, ball_pos_x := 0, ball_pos_y := 0,
              ball_dir_x := (if ball_dir_x (game f) > 0 then 1 else - 1) / sqrt 2,
              ball_dir_y := (if r mod 2 \<noteq> 0 then 1 else - 1) / sqrt 2\<rparr>"
      and "events f' = events f @ [Score (1 - player f)]"
proof (cases "\<bar>ball_pos_x (game f)\<bar> \<ge> FIELD_WIDTH * 0.5 + 1.5 * BORDER_SIZE")
  case False
  with assms have "f' = f\<lparr>game := updateBall (game f)\<rparr>"
    unfolding check_border_def Let_def by (auto split: if_splits)
  with False no_score show ?thesis by simp
next
  case True
  with assms obtain t where
    t: "snd (reflect (ball_pos_x (game f)) (last_ball_pos_x (game f))
                 (FIELD_WIDTH * 0.5 + 1.5 * BORDER_SIZE) (loc_t f)) = Some t"
    unfolding check_border_def Let_def by (auto split: if_splits option.splits)
  from assms True t have "game f' = (game f)
             \<lparr>server := (server (game f))(''ball'' \<mapsto>
                  \<lparr>position_x = Finite (ball_pos_x (game f) - t * ball_dx f),
                   position_y = Finite (ball_pos_y (game f) - t * ball_dy f)\<rparr>),
              player_contexts := (player_contexts (game f))
                 [1 - player f := (player_contexts (game f) ! (1 - player f))
                    \<lparr>score := score (player_contexts (game f) ! (1 - player f)) + 1\<rparr>],
              speed := 5 * UPDATE_RATE, ball_pos_x := 0, ball_pos_y := 0,
              ball_dir_x := (if ball_dir_x (game f) > 0 then 1 else - 1) / sqrt 2,
              ball_dir_y := (if r mod 2 \<noteq> 0 then 1 else - 1) / sqrt 2\<rparr>"
      and "events f' = events f @ [Score (1 - player f)]"
    unfolding check_border_def Let_def
    by (auto simp: reset_Some updateBall_def split: if_splits)
  with score [OF True t] show ?thesis by simp
qed

lemma spinOnce_SomeD:
  assumes "spinOnce s r = Some (s', evs)"
    and "active (player_contexts s ! 0)" and "active (player_contexts s ! 1)"
  obtains f1 f2 f3 where "bounce_walls (advance s) = Some f1" and "reflect_paddles f1 = Some f2"
    and "check_border f2 r = Some f3"
    and "s' = (game f3)\<lparr>last_ball_pos_x := ball_pos_x (game f3),
                           last_ball_pos_y := ball_pos_y (game f3),
                           speed := speed (game f3) + 0.0002\<rparr>"
    and "evs = events f3"
  using assms unfolding spinOnce_def Let_def
  by (auto simp: bind_eq_Some_conv)

lemma spinOnce_idle:
  assumes "\<not> (active (player_contexts s ! 0) \<and> active (player_contexts s ! 1))"
  shows "spinOnce s r = Some (s, [])"
  using assms by (auto simp: spinOnce_def)

subsection \<open>What a tick preserves\<close>

lemma normalizeVel_fields:
  assumes "normalizeVel s = Some s'"
  shows "ball_pos_x s' = ball_pos_x s" "ball_pos_y s' = ball_pos_y s"
    "last_ball_pos_x s' = last_ball_pos_x s" "last_ball_pos_y s' = last_ball_pos_y s"
    "speed s' = speed s" "player_contexts s' = player_contexts s" "server s' = server s"
  using normalizeVel_SomeD [OF assms] by auto

lemma normalizeVel_sign:
  assumes "normalizeVel s = Some s'"
  shows "0 < ball_dir_x s \<Longrightarrow> 0 < ball_dir_x s'" "ball_dir_x s < 0 \<Longrightarrow> ball_dir_x s' < 0"
  using normalizeVel_SomeD [OF assms] by (auto simp: divide_neg_pos)

lemma limit_angle_fields:
  assumes "limit_angle s = Some s'"
  shows "ball_pos_x s' = ball_pos_x s" "ball_pos_y s' = ball_pos_y s"
    "last_ball_pos_x s' = last_ball_pos_x s" "last_ball_pos_y s' = last_ball_pos_y s"
    "speed s' = speed s" "player_contexts s' = player_contexts s" "server s' = server s"
  using limit_angle_SomeD [OF assms] by auto

lemma limit_angle_sign:
  assumes "limit_angle s = Some s'"
  shows "0 < ball_dir_x s \<Longrightarrow> 0 < ball_dir_x s'" "ball_dir_x s < 0 \<Longrightarrow> ball_dir_x s' < 0"
  using limit_angle_SomeD [OF assms] by auto

lemma diag_unit: "((if a then 1 else - 1) / sqrt 2)\<^sup>2 + ((if b then 1 else - 1) / sqrt 2)\<^sup>2 = (1::real)"
  by (simp add: power_divide)

lemma limit_angle_unit:
  assumes "limit_angle s = Some s'" and "unit_dir s"
  shows "unit_dir s'"
  using limit_angle_SomeD [OF assms(1)] assms(2)
  by (auto simp: unit_dir_def diag_unit)

lemma limit_angle_cap:
  assumes "limit_angle s = Some s'"
  shows "\<bar>ball_dir_y s'\<bar> \<le> sqrt 2 / 2"
proof -
  have d: "\<bar>(if b then 1 else - 1) / sqrt 2\<bar> = sqrt 2 / 2" for b
    by (simp add: inv_sqrt2 two_div_sqrt2)
  from limit_angle_SomeD [OF assms] show ?thesis
  proof
    assume "\<bar>ball_dir_y s\<bar> \<le> 0.707106781 \<and> s' = s"
    with threshold_below_sin45 show ?thesis by simp
  next
    assume "\<bar>ball_dir_y s\<bar> > 0.707106781 \<and>
          s' = s\<lparr>ball_dir_x := (if ball_dir_x s > 0 then 1 else - 1) / sqrt 2,
                 ball_dir_y := (if ball_dir_y s > 0 then 1 else - 1) / sqrt 2\<rparr>"
    then have "ball_dir_y s' = (if ball_dir_y s > 0 then 1 else - 1) / sqrt 2" by simp
    then show ?thesis by (simp only: d)
  qed
qed

lemma limit_angle_clamps:
  assumes "sqrt 2 / 2 < \<bar>ball_dir_y g\<bar>"
  shows "limit_angle g \<noteq> None \<and> \<bar>ball_dir_x (the (limit_angle g))\<bar> = sqrt 2 / 2 \<and>
         \<bar>ball_dir_y (the (limit_angle g))\<bar> = sqrt 2 / 2"
proof -
  let ?d = "g\<lparr>ball_dir_x := (if ball_dir_x g > 0.0 then 1.0 else - 1.0),
               ball_dir_y := (if ball_dir_y g > 0.0 then 1.0 else - 1.0)\<rparr>"
  have d: "\<bar>(if b then 1 else - 1) / sqrt 2\<bar> = sqrt 2 / 2" for b
    by (simp add: inv_sqrt2 two_div_sqrt2)
  from assms threshold_below_sin45 have gt: "\<bar>ball_dir_y g\<bar> > 0.707106781" by linarith
  then have "limit_angle g = normalizeVel ?d" by (simp add: limit_angle_def)
  also have "\<dots> = Some (?d\<lparr>ball_dir_x := ball_dir_x ?d / sqrt 2, ball_dir_y := ball_dir_y ?d / sqrt 2\<rparr>)"
    by (rule normalizeVel_diag) auto
  finally obtain s' where s': "limit_angle g = Some s'" by blast
  from limit_angle_SomeD [OF s'] gt
  have "s' = g\<lparr>ball_dir_x := (if ball_dir_x g > 0 then 1 else - 1) / sqrt 2,
                 ball_dir_y := (if ball_dir_y g > 0 then 1 else - 1) / sqrt 2\<rparr>"
    by auto
  then have "\<bar>ball_dir_x s'\<bar> = sqrt 2 / 2" "\<bar>ball_dir_y s'\<bar> = sqrt 2 / 2"
    by (auto simp: inv_sqrt2 two_div_sqrt2)
  with s' show ?thesis by simp
qed

lemma reset_unit: "reset s r = Some s' \<Longrightarrow> unit_dir s'"
  by (auto simp: reset_Some unit_dir_def diag_unit)

lemma bounce_walls_unit:
  assumes "bounce_walls f = Some f'" and "unit_dir (game f)"
  shows "unit_dir (game f')"
  using assms(1)
proof (cases rule: bounce_walls_SomeD)
  case miss
  with assms(2) show ?thesis by simp
next
  case (hit t)
  with assms(2) show ?thesis by (simp add: unit_dir_def)
qed

lemma reflect_paddles_unit:
  assumes "reflect_paddles f = Some f'" and "unit_dir (game f)"
  shows "unit_dir (game f')"
  using assms(1)
proof (cases rule: reflect_paddles_SomeD)
  case miss
  with assms(2) show ?thesis by simp
next
  case (hit t s3 s4)
  from hit(3) have "unit_dir s3" by (rule normalizeVel_unit)
  with hit(4) have "unit_dir s4" by (rule limit_angle_unit)
  with hit(5) show ?thesis by (simp add: unit_dir_def)
qed

lemma check_border_unit:
  assumes "check_border f r = Some f'" and "unit_dir (game f)"
  shows "unit_dir (game f')"
  using assms(1)
proof (cases rule: check_border_SomeD)
  case no_score
  with assms(2) show ?thesis by (simp add: unit_dir_def updateBall_def)
next
  case (score t)
  then show ?thesis by (simp add: unit_dir_def diag_unit)
qed

lemma advance_unit: "unit_dir (game (advance s)) = unit_dir s"
  by (simp add: advance_simps unit_dir_def)

lemma spinOnce_cases:
  assumes "spinOnce s r = Some (s', evs)"
  obtains (idle) "\<not> (active (player_contexts s ! 0) \<and> active (player_contexts s ! 1))"
      and "s' = s" and "evs = []"
  | (run) f1 f2 f3 where "active (player_contexts s ! 0)" and "active (player_contexts s ! 1)"
      and "bounce_walls (advance s) = Some f1" and "reflect_paddles f1 = Some f2"
      and "check_border f2 r = Some f3"
      and "s' = (game f3)\<lparr>last_ball_pos_x := ball_pos_x (game f3),
                             last_ball_pos_y := ball_pos_y (game f3),
                             speed := speed (game f3) + 0.0002\<rparr>"
      and "evs = events f3"
proof (cases "active (player_contexts s ! 0) \<and> active (player_contexts s ! 1)")
  case False
  have e: "s' = s" "evs = []"
    using assms spinOnce_idle [OF False, of r] by simp_all
  show ?thesis by (rule idle [OF False e])
next
  case True
  then have a: "active (player_contexts s ! 0)" "active (player_contexts s ! 1)" by simp_all
  from assms a obtain f1 f2 f3 where "bounce_walls (advance s) = Some f1" "reflect_paddles f1 = Some f2"
    "check_border f2 r = Some f3"
    "s' = (game f3)\<lparr>last_ball_pos_x := ball_pos_x (game f3),
                       last_ball_pos_y := ball_pos_y (game f3),
                       speed := speed (game f3) + 0.0002\<rparr>"
    "evs = events f3"
    by (rule spinOnce_SomeD)
  then show ?thesis by (rule run [OF a])
qed

lemma spinOnce_unit:
  assumes "spinOnce s r = Some (s', evs)" and "unit_dir s"
  shows "unit_dir s'"
  using assms(1)
proof (cases rule: spinOnce_cases)
  case idle
  with assms(2) show ?thesis by simp
next
  case (run f1 f2 f3)
  from assms(2) have "unit_dir (game (advance s))" by (simp add: advance_unit)
  with run(3) have "unit_dir (game f1)" by (rule bounce_walls_unit)
  with run(4) have "unit_dir (game f2)" by (rule reflect_paddles_unit)
  with run(5) have "unit_dir (game f3)" by (rule check_border_unit)
  with run(6) show ?thesis by (simp add: unit_dir_def)
qed

lemma processPaddleFeedback_dir:
  "ball_dir_x (processPaddleFeedback pl fb s) = ball_dir_x s"
  "ball_dir_y (processPaddleFeedback pl fb s) = ball_dir_y s"
  by (simp_all add: processPaddleFeedback_def Let_def split: prod.splits)

lemma reachable_unit: "reachable s \<Longrightarrow> unit_dir s"
proof (induction rule: reachable.induct)
  case (construct u p v r s)
  then show ?case by (auto simp: PongGame_def intro: reset_unit)
next
  case (tick s r s' evs)
  then show ?case by (blast intro: spinOnce_unit)
next
  case (feedback s pl fb)
  then show ?case by (simp add: unit_dir_def processPaddleFeedback_dir)
qed

lemma PongGame_kickoff: "PongGame 0 0 0 1 = Some kickoff"
  by (simp add: PongGame_def reset_Some kickoff_def numeral_2_eq_2)

lemma advance_events: "events (advance s) = []"
  by (simp add: advance_simps)

lemma bounce_walls_events:
  assumes "bounce_walls f = Some f'"
  shows "PaddleBounce \<in> set (events f') \<longleftrightarrow> PaddleBounce \<in> set (events f)"
    and "Score p \<in> set (events f') \<longleftrightarrow> Score p \<in> set (events f)"
  using assms by (cases rule: bounce_walls_SomeD; simp)+

lemma check_border_events:
  assumes "check_border f r = Some f'"
  shows "PaddleBounce \<in> set (events f') \<longleftrightarrow> PaddleBounce \<in> set (events f)"
    and "WallBounce \<in> set (events f') \<longleftrightarrow> WallBounce \<in> set (events f)"
  using assms by (cases rule: check_border_SomeD; simp)+

lemma reflect_paddles_events:
  assumes "reflect_paddles f = Some f'"
  shows "WallBounce \<in> set (events f') \<longleftrightarrow> WallBounce \<in> set (events f)"
    and "Score p \<in> set (events f') \<longleftrightarrow> Score p \<in> set (events f)"
  using assms by (cases rule: reflect_paddles_SomeD; simp)+

lemma reflect_paddles_cap:
  assumes "reflect_paddles f = Some f'" and "PaddleBounce \<in> set (events f')"
    and "PaddleBounce \<notin> set (events f)"
  shows "\<bar>ball_dir_y (game f')\<bar> \<le> sqrt 2 / 2"
  using assms(1)
proof (cases rule: reflect_paddles_SomeD)
  case miss
  with assms(2,3) show ?thesis by simp
next
  case (hit t s3 s4)
  from hit(4) have "\<bar>ball_dir_y s4\<bar> \<le> sqrt 2 / 2" by (rule limit_angle_cap)
  with hit(5) show ?thesis by simp
qed

lemma check_border_cap:
  assumes "check_border f r = Some f'" and "\<bar>ball_dir_y (game f)\<bar> \<le> sqrt 2 / 2"
  shows "\<bar>ball_dir_y (game f')\<bar> \<le> sqrt 2 / 2"
  using assms(1)
proof (cases rule: check_border_SomeD)
  case no_score
  with assms(2) show ?thesis by (simp add: updateBall_def)
next
  case (score t)
  have "\<bar>(if r mod 2 \<noteq> 0 then 1 else - 1) / sqrt 2\<bar> = sqrt 2 / 2"
    by (simp add: inv_sqrt2 two_div_sqrt2)
  with score(3) show ?thesis by simp
qed

lemma bounce_walls_fields:
  assumes "bounce_walls f = Some f'"
  shows "player_contexts (game f') = player_contexts (game f)"
    "last_ball_pos_x (game f') = last_ball_pos_x (game f)"
    "last_ball_pos_y (game f') = last_ball_pos_y (game f)"
    "speed (game f') = speed (game f)" "server (game f') = server (game f)"
    "ball_dir_x (game f') = ball_dir_x (game f)"
  using assms by (cases rule: bounce_walls_SomeD; simp)+

lemma reflect_paddles_fields:
  assumes "reflect_paddles f = Some f'"
  shows "player_contexts (game f') = player_contexts (game f)"
    "last_ball_pos_x (game f') = last_ball_pos_x (game f)"
    "last_ball_pos_y (game f') = last_ball_pos_y (game f)"
    "speed (game f') = speed (game f)" "server (game f') = server (game f)"
    "player f' = (if ball_pos_x (game f) > 0 then 1 else 0)"
  using assms
  by (cases rule: reflect_paddles_SomeD; simp add: normalizeVel_fields limit_angle_fields)+

lemma no_score_before_border:
  assumes "bounce_walls (advance s) = Some f1" and "reflect_paddles f1 = Some f2"
  shows "Score p \<notin> set (events f2)"
  using bounce_walls_events(2) [OF assms(1)] reflect_paddles_events(2) [OF assms(2)]
  by (simp add: advance_events)

lemma score_update:
  assumes "length pcs = 2" and "w < 2" and "l = 1 - w"
  shows "score (pcs[w := (pcs ! w)\<lparr>score := score (pcs ! w) + 1\<rparr>] ! w) = score (pcs ! w) + 1"
    and "score (pcs[w := (pcs ! w)\<lparr>score := score (pcs ! w) + 1\<rparr>] ! l) = score (pcs ! l)"
proof -
  from assms have ne: "w \<noteq> l" and lt: "w < length pcs" by arith+
  from lt show "score (pcs[w := (pcs ! w)\<lparr>score := score (pcs ! w) + 1\<rparr>] ! w) = score (pcs ! w) + 1"
    by simp
  from ne show "score (pcs[w := (pcs ! w)\<lparr>score := score (pcs ! w) + 1\<rparr>] ! l) = score (pcs ! l)"
    by simp
qed

lemma clamp_pose:
  fixes y :: ieee and hi lo :: real
  assumes "lo \<le> hi"
  defines "y1 \<equiv> (if ieee_less (Finite hi) y then Finite hi else y)"
  defines "y2 \<equiv> (if ieee_less y1 (Finite lo) then Finite lo else y1)"
  shows "(y = NaN \<longrightarrow> y2 = NaN) \<and> (y \<noteq> NaN \<longrightarrow> (\<exists>p. y2 = Finite p \<and> lo \<le> p \<and> p \<le> hi))"
  using assms(1) unfolding y1_def y2_def by (cases y) auto

lemma processPaddleFeedback_frame:
  assumes "pl < 2" and "length (player_contexts s) = 2"
  shows "(position_y (pose fb) = NaN \<longrightarrow> pos (player_contexts (processPaddleFeedback pl fb s) ! pl) = NaN) \<and>
         (position_y (pose fb) \<noteq> NaN \<longrightarrow>
            (\<exists>p. pos (player_contexts (processPaddleFeedback pl fb s) ! pl) = Finite p \<and>
                 - ((FIELD_HEIGHT - PADDLE_SIZE) / 2) \<le> p \<and> p \<le> (FIELD_HEIGHT - PADDLE_SIZE) / 2)) \<and>
         ball_pos_x (processPaddleFeedback pl fb s) = ball_pos_x s \<and>
         ball_pos_y (processPaddleFeedback pl fb s) = ball_pos_y s \<and>
         last_ball_pos_x (processPaddleFeedback pl fb s) = last_ball_pos_x s \<and>
         last_ball_pos_y (processPaddleFeedback pl fb s) = last_ball_pos_y s \<and>
         ball_dir_x (processPaddleFeedback pl fb s) = ball_dir_x s \<and>
         ball_dir_y (processPaddleFeedback pl fb s) = ball_dir_y s \<and>
         speed (processPaddleFeedback pl fb s) = speed s \<and>
         map score (player_contexts (processPaddleFeedback pl fb s)) = map score (player_contexts s)"
proof -
  define hi :: real where "hi = (FIELD_HEIGHT - PADDLE_SIZE) * 0.5"
  define lo :: real where "lo = (FIELD_HEIGHT - PADDLE_SIZE) * - 0.5"
  define y where "y = position_y (pose fb)"
  define y1 where "y1 = (if ieee_less (Finite hi) y then Finite hi else y)"
  define y2 where "y2 = (if ieee_less y1 (Finite lo) then Finite lo else y1)"
  have "lo \<le> hi" by (simp add: lo_def hi_def field_consts)
  from clamp_pose [OF this, of y]
  have cl: "(y = NaN \<longrightarrow> y2 = NaN) \<and> (y \<noteq> NaN \<longrightarrow> (\<exists>p. y2 = Finite p \<and> lo \<le> p \<and> p \<le> hi))"
    unfolding y1_def y2_def .
  have sc: "map score ((player_contexts s)[pl := pc]) = map score (player_contexts s)"
    if "score pc = score (player_contexts s ! pl)" for pc
    using that assms by (simp add: map_update list_update_same_conv)
  have p: "pos (player_contexts (processPaddleFeedback pl fb s) ! pl) = y2"
    using assms
    by (auto simp: processPaddleFeedback_def Let_def y2_def y1_def y_def hi_def lo_def
        split: prod.splits if_splits)
  have rest: "ball_pos_x (processPaddleFeedback pl fb s) = ball_pos_x s \<and>
         ball_pos_y (processPaddleFeedback pl fb s) = ball_pos_y s \<and>
         last_ball_pos_x (processPaddleFeedback pl fb s) = last_ball_pos_x s \<and>
         last_ball_pos_y (processPaddleFeedback pl fb s) = last_ball_pos_y s \<and>
         ball_dir_x (processPaddleFeedback pl fb s) = ball_dir_x s \<and>
         ball_dir_y (processPaddleFeedback pl fb s) = ball_dir_y s \<and>
         speed (processPaddleFeedback pl fb s) = speed s \<and>
         map score (player_contexts (processPaddleFeedback pl fb s)) = map score (player_contexts s)"
    using assms
    by (auto simp: processPaddleFeedback_def Let_def sc split: prod.splits if_splits)
  have b: "lo = - ((FIELD_HEIGHT - PADDLE_SIZE) / 2)" "hi = (FIELD_HEIGHT - PADDLE_SIZE) / 2"
    by (simp_all add: lo_def hi_def)
  from cl rest show ?thesis unfolding p y_def [symmetric] b by blast
qed

lemma processPaddleFeedback_scores:
  assumes "length (player_contexts s) = 2"
  shows "map score (player_contexts (processPaddleFeedback pl fb s)) = map score (player_contexts s)"
proof (cases "pl < 2")
  case True
  from processPaddleFeedback_frame [OF True assms] show ?thesis by blast
next
  case False
  then show ?thesis by (simp add: processPaddleFeedback_def)
qed

lemma bounce_walls_advance_x:
  assumes "bounce_walls (advance s) = Some f1"
  shows "ball_pos_x (game f1) = ball_pos_x s + speed s * ball_dir_x s"
    and "ball_dx f1 = speed s * ball_dir_x s"
  using assms by (cases rule: bounce_walls_SomeD; simp add: advance_simps)+

lemma reflect_paddles_sign:
  assumes "reflect_paddles f = Some f'" and "PaddleBounce \<in> set (events f')"
    and "PaddleBounce \<notin> set (events f)"
  shows "(0 < ball_dir_x (game f) \<longrightarrow> ball_dir_x (game f') < 0) \<and>
         (ball_dir_x (game f) < 0 \<longrightarrow> 0 < ball_dir_x (game f'))"
  using assms(1)
proof (cases rule: reflect_paddles_SomeD)
  case miss
  with assms(2,3) show ?thesis by simp
next
  case (hit t s3 s4)
  have "ball_dir_x s4 < 0" if "0 < ball_dir_x (game f)"
  proof -
    from that have "ball_dir_x s3 < 0" using normalizeVel_sign(2) [OF hit(3)] by simp
    then show ?thesis by (rule limit_angle_sign(2) [OF hit(4)])
  qed
  moreover have "0 < ball_dir_x s4" if "ball_dir_x (game f) < 0"
  proof -
    from that have "0 < ball_dir_x s3" using normalizeVel_sign(1) [OF hit(3)] by simp
    then show ?thesis by (rule limit_angle_sign(1) [OF hit(4)])
  qed
  ultimately show ?thesis using hit(5) by simp
qed

lemma check_border_sign:
  assumes "check_border f r = Some f'"
  shows "0 < ball_dir_x (game f) \<Longrightarrow> 0 < ball_dir_x (game f')"
    and "ball_dir_x (game f) < 0 \<Longrightarrow> ball_dir_x (game f') < 0"
  using assms by (cases rule: check_border_SomeD; simp add: updateBall_def)+

subsection \<open>Where a bounce leaves the ball\<close>

lemma bounce_walls_beyond:
  fixes s :: pong_game
  defines "dx \<equiv> speed s * ball_dir_x s" and "dy \<equiv> speed s * ball_dir_y s"
  defines "px \<equiv> ball_pos_x s + dx" and "py \<equiv> ball_pos_y s + dy"
  defines "t \<equiv> (if FIELD_HEIGHT * 0.5 < py then (py - FIELD_HEIGHT * 0.5) / (py - last_ball_pos_y s)
                  else (- py - FIELD_HEIGHT * 0.5) / (last_ball_pos_y s - py))"
  assumes beyond: "FIELD_HEIGHT * 0.5 < py \<or> py < - (FIELD_HEIGHT * 0.5)"
  shows "py \<noteq> last_ball_pos_y s \<Longrightarrow>
         bounce_walls (advance s) =
           Some ((advance s)\<lparr>game := s\<lparr>ball_pos_x := (px - t * dx) + t * dx,
                                        ball_pos_y := (py - t * dy) + t * (- dy),
                                        ball_dir_y := - ball_dir_y s\<rparr>,
                             loc_t := t, ball_dx := dx, ball_dy := - dy,
                             events := [WallBounce]\<rparr>)"
    and "py = last_ball_pos_y s \<Longrightarrow> bounce_walls (advance s) = None"
  using beyond
  unfolding t_def py_def px_def dy_def dx_def bounce_walls_def advance_def reflect_def fdiv_def Let_def
  by auto

lemma bounce_walls_within:
  assumes "\<not> (FIELD_HEIGHT * 0.5 < ball_pos_y s + speed s * ball_dir_y s \<or>
              ball_pos_y s + speed s * ball_dir_y s < - (FIELD_HEIGHT * 0.5))"
  shows "bounce_walls (advance s) = Some (advance s)"
  using assms
  unfolding bounce_walls_def advance_def reflect_def fdiv_def Let_def
  by auto

lemma bounce_walls_hit_position:
  assumes "bounce_walls (advance s) = Some f'" and "WallBounce \<in> set (events f')"
  shows "let dx = speed s * ball_dir_x s; dy = speed s * ball_dir_y s;
             px = ball_pos_x s + dx; py = ball_pos_y s + dy;
             t = (if FIELD_HEIGHT * 0.5 < py then (py - FIELD_HEIGHT * 0.5) / (py - last_ball_pos_y s)
                  else (- py - FIELD_HEIGHT * 0.5) / (last_ball_pos_y s - py))
         in (FIELD_HEIGHT * 0.5 < py \<or> py < - (FIELD_HEIGHT * 0.5)) \<and> py \<noteq> last_ball_pos_y s \<and>
            loc_t f' = t \<and>
            ball_dir_x (game f') = ball_dir_x s \<and> ball_dir_y (game f') = - ball_dir_y s \<and>
            ball_pos_x (game f') = (px - t * dx) + t * dx \<and>
            ball_pos_y (game f') = (py - t * dy) + t * (- dy) \<and>
            (last_ball_pos_y s = ball_pos_y s \<longrightarrow>
               py - t * dy = (if FIELD_HEIGHT * 0.5 < py then FIELD_HEIGHT * 0.5 else - (FIELD_HEIGHT * 0.5)))"
  using assms(1)
proof (cases rule: bounce_walls_SomeD)
  case miss
  with assms(2) show ?thesis by (simp add: advance_simps)
next
  case (hit t)
  let ?py = "ball_pos_y s + speed s * ball_dir_y s"
  from hit(1) have side: "FIELD_HEIGHT * 0.5 < ?py \<or> ?py < - (FIELD_HEIGHT * 0.5)"
    by (auto simp: advance_simps)
  from hit(2) have nz: "?py \<noteq> last_ball_pos_y s"
    and t: "t = (if FIELD_HEIGHT * 0.5 < ?py then (?py - FIELD_HEIGHT * 0.5) / (?py - last_ball_pos_y s)
                 else (- ?py - FIELD_HEIGHT * 0.5) / (last_ball_pos_y s - ?py))"
    using side by (auto simp: advance_simps reflect_snd fdiv_def split: if_splits)
  have on_wall: "?py - t * (speed s * ball_dir_y s) =
      (if FIELD_HEIGHT * 0.5 < ?py then FIELD_HEIGHT * 0.5 else - (FIELD_HEIGHT * 0.5))"
    if "last_ball_pos_y s = ball_pos_y s"
    using that nz by (simp add: t field_simps)
  have px: "ball_pos_x (game f') =
      (ball_pos_x s + speed s * ball_dir_x s - t * (speed s * ball_dir_x s)) + t * (speed s * ball_dir_x s)"
    and py: "ball_pos_y (game f') =
      (?py - t * (speed s * ball_dir_y s)) + t * (- (speed s * ball_dir_y s))"
    and dir: "ball_dir_x (game f') = ball_dir_x s" "ball_dir_y (game f') = - ball_dir_y s"
    by (simp_all add: hit(3) advance_simps)
  have lt: "loc_t f' = t" by (rule hit(4))
  show ?thesis
    unfolding Let_def t [symmetric]
    using side nz lt dir px py on_wall by blast
qed

lemma backup_hi:
  fixes x0 x' L tw t :: real
  assumes "x0 < L" and "L \<le> x'" and "snd (reflect x' x0 L tw) = Some t" and "0 \<le> tw" and "0 < L"
  shows "0 \<le> t \<and> x' - t * (x' - x0) \<le> L"
proof (cases "L < x'")
  case True
  with assms(1) have d: "0 < x' - x0" by simp
  with assms(3) True have t: "t = (x' - L) / (x' - x0)" by (simp add: reflect_snd fdiv_def)
  with d have "t * (x' - x0) = x' - L" by simp
  moreover from t d True have "0 \<le> t" by simp
  ultimately show ?thesis by simp
next
  case False
  with assms(2) have e: "x' = L" by simp
  with assms(3,5) have "t = tw" by (simp add: reflect_snd)
  moreover from assms(1) e have "0 \<le> x' - x0" by simp
  ultimately have "0 \<le> t * (x' - x0)" using assms(4) by simp
  with \<open>t = tw\<close> assms(4) e show ?thesis by simp
qed

lemma backup_lo:
  fixes x0 x' L tw t :: real
  assumes "- L < x0" and "x' \<le> - L" and "snd (reflect x' x0 L tw) = Some t" and "0 \<le> tw" and "0 < L"
  shows "0 \<le> t \<and> - L \<le> x' - t * (x' - x0)"
proof (cases "x' < - L")
  case True
  with assms(1) have d: "0 < x0 - x'" by simp
  from True assms(5) have n: "\<not> L < x'" "L < - x'" by simp_all
  with assms(3) d have t: "t = (- x' - L) / (x0 - x')" by (simp add: reflect_snd fdiv_def)
  with d have "t * (x0 - x') = - x' - L" by simp
  then have "t * (x' - x0) = x' + L" by (simp add: algebra_simps)
  moreover from t d True have "0 \<le> t" by simp
  ultimately show ?thesis by simp
next
  case False
  with assms(2) have e: "x' = - L" by simp
  with assms(3,5) have "t = tw" by (simp add: reflect_snd)
  moreover from assms(1) e have "0 \<le> x0 - x'" by simp
  ultimately have "0 \<le> t * (x0 - x')" using assms(4) by simp
  then have "t * (x' - x0) \<le> 0" by (simp add: algebra_simps)
  with \<open>t = tw\<close> assms(4) e show ?thesis by simp
qed

lemma wall_t_nonneg:
  fixes y0 y' L t :: real
  assumes "\<bar>y0\<bar> \<le> L" and "snd (reflect y' y0 L 0) = Some t"
  shows "0 \<le> t"
proof -
  consider "L < y'" | "\<not> L < y'" "L < - y'" | "\<not> L < y'" "\<not> L < - y'" by blast
  then show ?thesis
  proof cases
    case 1
    with assms(1) have d: "0 < y' - y0" by simp
    with assms(2) 1 have "t = (y' - L) / (y' - y0)" by (simp add: reflect_snd fdiv_def)
    with d 1 show ?thesis by simp
  next
    case 2
    with assms(1) have d: "0 < y0 - y'" by simp
    with assms(2) 2 have "t = (- y' - L) / (y0 - y')" by (simp add: reflect_snd fdiv_def)
    with d 2 show ?thesis by simp
  next
    case 3
    with assms(2) show ?thesis by (simp add: reflect_snd)
  qed
qed



lemma bounce_walls_advance_t:
  assumes f1: "bounce_walls (advance s) = Some f1" and ly: "last_ball_pos_y s = ball_pos_y s"
    and up: "FIELD_HEIGHT * 0.5 < ball_pos_y s \<longrightarrow> 0 \<le> ball_dir_y s"
    and down: "ball_pos_y s < - (FIELD_HEIGHT * 0.5) \<longrightarrow> ball_dir_y s \<le> 0"
    and v: "0 < speed s"
  shows "0 \<le> loc_t f1"
  using f1
proof (cases rule: bounce_walls_SomeD)
  case miss
  then show ?thesis by (simp add: advance_simps)
next
  case (hit t)
  define L where "L = FIELD_HEIGHT * 0.5"
  define y0 where "y0 = ball_pos_y s"
  define dy where "dy = speed s * ball_dir_y s"
  have L: "0 < L" by (simp add: L_def field_consts)
  from hit(2) have r: "snd (reflect (y0 + dy) y0 L 0) = Some t"
    by (simp add: advance_simps ly L_def y0_def dy_def)
  from up v have u: "L < y0 \<Longrightarrow> 0 \<le> dy" unfolding L_def y0_def dy_def by simp
  from down v have d: "y0 < - L \<Longrightarrow> dy \<le> 0"
    unfolding L_def y0_def dy_def by (simp add: mult_nonneg_nonpos)
  consider "L < y0 + dy" | "\<not> L < y0 + dy" "L < - (y0 + dy)" | "\<not> L < y0 + dy" "\<not> L < - (y0 + dy)"
    by blast
  then have "0 \<le> t"
  proof cases
    case 1
    with r have nz: "dy \<noteq> 0" and t: "t = (y0 + dy - L) / dy"
      by (auto simp: reflect_snd fdiv_def split: if_splits)
    have "0 < dy"
    proof (cases "L < y0")
      case True
      with u nz show ?thesis by simp
    next
      case False
      with 1 show ?thesis by simp
    qed
    with 1 t show ?thesis by simp
  next
    case 2
    with r have nz: "dy \<noteq> 0" and t: "t = (- (y0 + dy) - L) / (- dy)"
      by (auto simp: reflect_snd fdiv_def split: if_splits)
    have "dy < 0"
    proof (cases "y0 < - L")
      case True
      with d nz show ?thesis by simp
    next
      case False
      with 2 show ?thesis by simp
    qed
    then have "0 < - dy" by simp
    moreover from 2 have "0 \<le> - (y0 + dy) - L" by simp
    ultimately have "0 \<le> (- (y0 + dy) - L) / (- dy)" by (rule divide_nonneg_pos [rotated])
    with t show ?thesis by simp
  next
    case 3
    with r show ?thesis by (simp add: reflect_snd)
  qed
  with hit(4) show ?thesis by simp
qed

lemma wall_mirror:
  assumes "bounce_walls (advance s) = Some f1" and "WallBounce \<in> set (events f1)"
    and "last_ball_pos_y s = ball_pos_y s"
  shows "(FIELD_HEIGHT * 0.5 < ball_pos_y s + speed s * ball_dir_y s \<longrightarrow> ball_pos_y (game f1) < FIELD_HEIGHT * 0.5) \<and>
         (ball_pos_y s + speed s * ball_dir_y s < - (FIELD_HEIGHT * 0.5) \<longrightarrow> - (FIELD_HEIGHT * 0.5) < ball_pos_y (game f1))"
proof -
  define dy where "dy = speed s * ball_dir_y s"
  define py where "py = ball_pos_y s + dy"
  define t where "t = (if FIELD_HEIGHT * 0.5 < py then (py - FIELD_HEIGHT * 0.5) / (py - last_ball_pos_y s)
                  else (- py - FIELD_HEIGHT * 0.5) / (last_ball_pos_y s - py))"
  from bounce_walls_hit_position [OF assms(1,2)]
  have side: "FIELD_HEIGHT * 0.5 < py \<or> py < - (FIELD_HEIGHT * 0.5)"
    and y: "ball_pos_y (game f1) = (py - t * dy) + t * (- dy)"
    and w: "py - t * dy = (if FIELD_HEIGHT * 0.5 < py then FIELD_HEIGHT * 0.5 else - (FIELD_HEIGHT * 0.5))"
    unfolding Let_def dy_def [symmetric] py_def [symmetric] t_def [symmetric]
    using assms(3) by blast+
  have h: "0 < FIELD_HEIGHT * 0.5" by (simp add: field_consts)
  show ?thesis
  proof (cases "FIELD_HEIGHT * 0.5 < py")
    case True
    with w have "t * dy = py - FIELD_HEIGHT * 0.5" by simp
    with y True h show ?thesis unfolding py_def [symmetric] dy_def [symmetric] by simp
  next
    case False
    with side have lo: "py < - (FIELD_HEIGHT * 0.5)" by simp
    from w False have "t * dy = py + FIELD_HEIGHT * 0.5" by simp
    with y lo h show ?thesis unfolding py_def [symmetric] dy_def [symmetric] by simp
  qed
qed


subsection \<open>The ticks of a reachable game yield finite values\<close>

lemma reflect_finite:
  assumes "limit < p \<or> limit < - p \<Longrightarrow> p \<noteq> l"
  shows "\<exists>t'. snd (reflect p l limit t) = Some t'"
  using assms by (auto simp: reflect_snd fdiv_def)

lemma bounce_walls_total:
  assumes "FIELD_HEIGHT * 0.5 < ball_pos_y (game f) \<or> FIELD_HEIGHT * 0.5 < - ball_pos_y (game f)
           \<Longrightarrow> ball_pos_y (game f) \<noteq> last_ball_pos_y (game f)"
  shows "\<exists>f'. bounce_walls f = Some f'"
proof -
  from reflect_finite [OF assms] obtain t where
    "snd (reflect (ball_pos_y (game f)) (last_ball_pos_y (game f)) (FIELD_HEIGHT * 0.5) (loc_t f)) = Some t"
    by blast
  then obtain h where
    r: "reflect (ball_pos_y (game f)) (last_ball_pos_y (game f)) (FIELD_HEIGHT * 0.5) (loc_t f) = (h, Some t)"
    by (metis prod.collapse)
  show ?thesis unfolding bounce_walls_def Let_def r by (cases h) simp_all
qed

lemma normalizeVel_total:
  assumes "ball_dir_x s \<noteq> 0"
  shows "\<exists>s'. normalizeVel s = Some s'"
proof -
  have "0 < ball_dir_x s * ball_dir_x s" using assms by (auto simp: zero_less_mult_iff)
  moreover have "0 \<le> ball_dir_y s * ball_dir_y s" by simp
  ultimately have "0 < ball_dir_x s * ball_dir_x s + ball_dir_y s * ball_dir_y s" by linarith
  then have "0 < sqrt (ball_dir_x s * ball_dir_x s + ball_dir_y s * ball_dir_y s)"
    by (simp only: real_sqrt_gt_0_iff)
  then have "sqrt (ball_dir_x s * ball_dir_x s + ball_dir_y s * ball_dir_y s) \<noteq> 0" by linarith
  then show ?thesis unfolding normalizeVel_def Let_def by (simp only: if_False) blast
qed

lemma limit_angle_total: "\<exists>s'. limit_angle s = Some s'"
proof (cases "\<bar>ball_dir_y s\<bar> > 0.707106781")
  case True
  let ?d = "s\<lparr>ball_dir_x := (if ball_dir_x s > 0.0 then 1.0 else - 1.0),
               ball_dir_y := (if ball_dir_y s > 0.0 then 1.0 else - 1.0)\<rparr>"
  have "ball_dir_x ?d \<noteq> 0" by simp
  then have "\<exists>s'. normalizeVel ?d = Some s'" by (rule normalizeVel_total)
  with True show ?thesis by (simp add: limit_angle_def)
next
  case False
  then show ?thesis by (simp add: limit_angle_def)
qed

lemma reflect_paddles_total:
  assumes "ball_dir_x (game f) \<noteq> 0"
  shows "\<exists>f'. reflect_paddles f = Some f'"
proof -
  define pl :: nat where "pl = (if ball_pos_x (game f) > 0 then 1 else 0)"
  define c where "c \<longleftrightarrow> \<bar>last_ball_pos_x (game f)\<bar> < FIELD_WIDTH * 0.5 \<and> \<bar>ball_pos_x (game f)\<bar> \<ge> FIELD_WIDTH * 0.5 \<and>
      (\<exists>p. pos (player_contexts (game f) ! pl) = Finite p \<and>
           p - PADDLE_SIZE * 0.5 - 0.5 * BORDER_SIZE < ball_pos_y (game f) \<and>
           ball_pos_y (game f) < p + PADDLE_SIZE * 0.5 + 0.5 * BORDER_SIZE)"
  show ?thesis
  proof (cases c)
    case False
    then show ?thesis unfolding c_def pl_def reflect_paddles_def Let_def paddle_window by auto
  next
    case True
    then obtain p where p: "pos (player_contexts (game f) ! pl) = Finite p" unfolding c_def by blast
    from True have "ball_pos_x (game f) \<noteq> last_ball_pos_x (game f)" unfolding c_def by auto
    then obtain t where
      t: "snd (reflect (ball_pos_x (game f)) (last_ball_pos_x (game f)) (FIELD_WIDTH * 0.5) (loc_t f)) = Some t"
      using reflect_finite by blast
    let ?s2 = "(game f)
             \<lparr>ball_pos_x := ball_pos_x (game f) - t * ball_dx f,
              ball_pos_y := ball_pos_y (game f) - t * ball_dy f,
              ball_dir_x := - ball_dir_x (game f),
              ball_dir_y := ball_dir_y (game f) +
                 (ball_pos_y (game f) - t * ball_dy f - p) / PADDLE_SIZE * 2\<rparr>"
    have "ball_dir_x ?s2 \<noteq> 0" using assms by simp
    then obtain s3 where s3: "normalizeVel ?s2 = Some s3" using normalizeVel_total by blast
    obtain s4 where s4: "limit_angle s3 = Some s4" using limit_angle_total by blast
    from True t p s3 s4 show ?thesis
      unfolding c_def pl_def reflect_paddles_def Let_def paddle_window by simp
  qed
qed

lemma check_border_total:
  assumes "\<bar>last_ball_pos_x (game f)\<bar> < FIELD_WIDTH * 0.5 + 1.5 * BORDER_SIZE"
  shows "\<exists>f'. check_border f r = Some f'"
proof (cases "\<bar>ball_pos_x (game f)\<bar> \<ge> FIELD_WIDTH * 0.5 + 1.5 * BORDER_SIZE")
  case False
  then show ?thesis by (simp add: check_border_def Let_def)
next
  case True
  with assms have "ball_pos_x (game f) \<noteq> last_ball_pos_x (game f)" by auto
  then obtain t where
    "snd (reflect (ball_pos_x (game f)) (last_ball_pos_x (game f))
                 (FIELD_WIDTH * 0.5 + 1.5 * BORDER_SIZE) (loc_t f)) = Some t"
    using reflect_finite by blast
  with True show ?thesis by (simp add: check_border_def Let_def reset_Some)
qed

lemma unit_dir_x_nonzero:
  assumes "unit_dir s" and "\<bar>ball_dir_y s\<bar> \<le> sqrt 2 / 2"
  shows "ball_dir_x s \<noteq> 0"
proof
  assume "ball_dir_x s = 0"
  with assms(1) have "(ball_dir_y s)\<^sup>2 = 1" by (simp add: unit_dir_def)
  then have "\<bar>ball_dir_y s\<bar> = 1" by (auto simp: power2_eq_1_iff)
  moreover have "sqrt 2 / 2 < 1" by (simp add: real_less_lsqrt)
  ultimately show False using assms(2) by simp
qed

lemma well_formedD:
  assumes "well_formed s"
  shows "length (player_contexts s) = 2"
    and "\<forall>i<2. paddle_ok (pos (player_contexts s ! i))"
    and "last_ball_pos_x s = ball_pos_x s" and "last_ball_pos_y s = ball_pos_y s"
    and "unit_dir s" and "\<bar>ball_dir_y s\<bar> \<le> sqrt 2 / 2" and "ball_dir_x s \<noteq> 0"
    and "\<bar>ball_pos_x s\<bar> < FIELD_WIDTH * 0.5 + 1.5 * BORDER_SIZE"
    and "ball_dir_y s = 0 \<longrightarrow> \<bar>ball_pos_y s\<bar> \<le> FIELD_HEIGHT * 0.5"
    and "FIELD_HEIGHT * 0.5 < ball_pos_y s \<longrightarrow> 0 \<le> ball_dir_y s"
    and "ball_pos_y s < - (FIELD_HEIGHT * 0.5) \<longrightarrow> ball_dir_y s \<le> 0"
    and "0 < speed s"
proof -
  from assms obtain k :: nat where k: "speed s = 5 * UPDATE_RATE + real k * 0.0002"
    unfolding well_formed_def by blast
  have "0 < 5 * UPDATE_RATE" by (simp add: field_consts)
  moreover have "0 \<le> real k * 0.0002" by simp
  ultimately show "0 < speed s" unfolding k by linarith
  from assms show u: "unit_dir s" and d: "\<bar>ball_dir_y s\<bar> \<le> sqrt 2 / 2"
    unfolding well_formed_def by blast+
  from u d show "ball_dir_x s \<noteq> 0" by (rule unit_dir_x_nonzero)
qed (use assms in \<open>unfold well_formed_def, blast\<close>)+

lemma spinOnce_total:
  assumes "well_formed s"
  shows "\<exists>s' evs. spinOnce s r = Some (s', evs)"
proof (cases "active (player_contexts s ! 0) \<and> active (player_contexts s ! 1)")
  case False
  then show ?thesis by (auto simp: spinOnce_def)
next
  case True
  note wf = well_formedD [OF assms]
  have ly: "last_ball_pos_y s = ball_pos_y s" and lx: "last_ball_pos_x s = ball_pos_x s"
    and dx: "ball_dir_x s \<noteq> 0" and px: "\<bar>ball_pos_x s\<bar> < FIELD_WIDTH * 0.5 + 1.5 * BORDER_SIZE"
    and dy: "ball_dir_y s = 0 \<longrightarrow> \<bar>ball_pos_y s\<bar> \<le> FIELD_HEIGHT * 0.5" and v: "0 < speed s"
    by (rule wf)+
  have "ball_pos_y (game (advance s)) \<noteq> last_ball_pos_y (game (advance s))"
    if "FIELD_HEIGHT * 0.5 < ball_pos_y (game (advance s)) \<or> FIELD_HEIGHT * 0.5 < - ball_pos_y (game (advance s))"
  proof
    assume "ball_pos_y (game (advance s)) = last_ball_pos_y (game (advance s))"
    then have "speed s * ball_dir_y s = 0" by (simp add: advance_simps ly)
    with v have z: "ball_dir_y s = 0" by simp
    with dy have "\<bar>ball_pos_y s\<bar> \<le> FIELD_HEIGHT * 0.5" by simp
    with that z show False by (auto simp: advance_simps)
  qed
  then obtain f1 where f1: "bounce_walls (advance s) = Some f1" using bounce_walls_total by blast
  from bounce_walls_fields [OF f1] have g1: "ball_dir_x (game f1) = ball_dir_x s"
    "last_ball_pos_x (game f1) = ball_pos_x s"
    by (simp_all add: advance_simps lx)
  from dx g1 obtain f2 where f2: "reflect_paddles f1 = Some f2" using reflect_paddles_total by metis
  from reflect_paddles_fields [OF f2] g1 px have "\<bar>last_ball_pos_x (game f2)\<bar> < FIELD_WIDTH * 0.5 + 1.5 * BORDER_SIZE"
    by simp
  then obtain f3 where f3: "check_border f2 r = Some f3" using check_border_total by blast
  from True f1 f2 f3 show ?thesis by (simp add: spinOnce_def Let_def)
qed

subsection \<open>What a tick preserves of a well-formed game\<close>

lemma bounce_walls_flat:
  assumes "bounce_walls (advance s) = Some f1"
    and "ball_dir_y s = 0 \<longrightarrow> \<bar>ball_pos_y s\<bar> \<le> FIELD_HEIGHT * 0.5"
  shows "ball_dir_y (game f1) = 0 \<longrightarrow> \<bar>ball_pos_y (game f1)\<bar> \<le> FIELD_HEIGHT * 0.5"
  using assms(1)
proof (cases rule: bounce_walls_SomeD)
  case miss
  with assms(2) show ?thesis by (simp add: advance_simps)
next
  case (hit t)
  show ?thesis
  proof
    assume "ball_dir_y (game f1) = 0"
    with hit(3) have z: "ball_dir_y s = 0" by (simp add: advance_simps)
    with assms(2) have "\<bar>ball_pos_y s\<bar> \<le> FIELD_HEIGHT * 0.5" by simp
    with hit(1) z have False by (auto simp: advance_simps)
    then show "\<bar>ball_pos_y (game f1)\<bar> \<le> FIELD_HEIGHT * 0.5" ..
  qed
qed

lemma beyond_moving_out:
  assumes up: "FIELD_HEIGHT * 0.5 < ball_pos_y s \<longrightarrow> 0 \<le> ball_dir_y s"
    and down: "ball_pos_y s < - (FIELD_HEIGHT * 0.5) \<longrightarrow> ball_dir_y s \<le> 0"
    and flat: "ball_dir_y s = 0 \<longrightarrow> \<bar>ball_pos_y s\<bar> \<le> FIELD_HEIGHT * 0.5"
    and v: "0 < speed s"
  shows "FIELD_HEIGHT * 0.5 < ball_pos_y s + speed s * ball_dir_y s \<longrightarrow> 0 < ball_dir_y s"
    and "ball_pos_y s + speed s * ball_dir_y s < - (FIELD_HEIGHT * 0.5) \<longrightarrow> ball_dir_y s < 0"
proof -
  show "FIELD_HEIGHT * 0.5 < ball_pos_y s + speed s * ball_dir_y s \<longrightarrow> 0 < ball_dir_y s"
  proof
    assume b: "FIELD_HEIGHT * 0.5 < ball_pos_y s + speed s * ball_dir_y s"
    show "0 < ball_dir_y s"
    proof (cases "FIELD_HEIGHT * 0.5 < ball_pos_y s")
      case True
      with up have "0 \<le> ball_dir_y s" by simp
      moreover from True flat have "ball_dir_y s \<noteq> 0" by auto
      ultimately show ?thesis by simp
    next
      case False
      with b have "0 < speed s * ball_dir_y s" by simp
      with v show ?thesis by (simp add: zero_less_mult_iff)
    qed
  qed
  show "ball_pos_y s + speed s * ball_dir_y s < - (FIELD_HEIGHT * 0.5) \<longrightarrow> ball_dir_y s < 0"
  proof
    assume b: "ball_pos_y s + speed s * ball_dir_y s < - (FIELD_HEIGHT * 0.5)"
    show "ball_dir_y s < 0"
    proof (cases "ball_pos_y s < - (FIELD_HEIGHT * 0.5)")
      case True
      with down have "ball_dir_y s \<le> 0" by simp
      moreover from True flat have "ball_dir_y s \<noteq> 0" by auto
      ultimately show ?thesis by simp
    next
      case False
      with b have "speed s * ball_dir_y s < 0" by simp
      with v show ?thesis by (simp add: mult_less_0_iff)
    qed
  qed
qed

lemma bounce_walls_away:
  assumes f1: "bounce_walls (advance s) = Some f1" and ly: "last_ball_pos_y s = ball_pos_y s"
    and up: "FIELD_HEIGHT * 0.5 < ball_pos_y s \<longrightarrow> 0 \<le> ball_dir_y s"
    and down: "ball_pos_y s < - (FIELD_HEIGHT * 0.5) \<longrightarrow> ball_dir_y s \<le> 0"
    and flat: "ball_dir_y s = 0 \<longrightarrow> \<bar>ball_pos_y s\<bar> \<le> FIELD_HEIGHT * 0.5"
    and v: "0 < speed s"
  shows "(FIELD_HEIGHT * 0.5 < ball_pos_y (game f1) \<longrightarrow> 0 \<le> ball_dir_y (game f1)) \<and>
         (ball_pos_y (game f1) < - (FIELD_HEIGHT * 0.5) \<longrightarrow> ball_dir_y (game f1) \<le> 0)"
  using f1
proof (cases rule: bounce_walls_SomeD)
  case miss
  then show ?thesis by (auto simp: advance_simps)
next
  case (hit t)
  from hit(7) have w: "WallBounce \<in> set (events f1)" by simp
  note m = wall_mirror [OF f1 w ly]
  note o = beyond_moving_out [OF up down flat v]
  have d: "ball_dir_y (game f1) = - ball_dir_y s" using hit(3) by (simp add: advance_simps)
  have h: "0 < FIELD_HEIGHT * 0.5" by (simp add: field_consts)
  from hit(1) consider "FIELD_HEIGHT * 0.5 < ball_pos_y s + speed s * ball_dir_y s"
    | "ball_pos_y s + speed s * ball_dir_y s < - (FIELD_HEIGHT * 0.5)"
    by (auto simp: advance_simps)
  then show ?thesis
  proof cases
    case 1
    with m o show ?thesis unfolding d by auto
  next
    case 2
    with m o show ?thesis unfolding d by auto
  qed
qed

lemma unit_dir_y_le_1:
  assumes "unit_dir s"
  shows "\<bar>ball_dir_y s\<bar> \<le> 1"
proof -
  have "(ball_dir_y s)\<^sup>2 \<le> (ball_dir_x s)\<^sup>2 + (ball_dir_y s)\<^sup>2" by simp
  with assms have "(ball_dir_y s)\<^sup>2 \<le> 1" by (simp add: unit_dir_def)
  then show ?thesis by (simp add: abs_square_le_1)
qed

lemma rebound_dir_y_sign:
  assumes "normalizeVel s2 = Some s3" and "limit_angle s3 = Some s4"
  shows "(ball_dir_y s4 < 0 \<longleftrightarrow> ball_dir_y s2 < 0) \<and> (0 < ball_dir_y s4 \<longleftrightarrow> 0 < ball_dir_y s2)"
proof -
  from normalizeVel_SomeD [OF assms(1)] obtain l where l: "0 < l"
    and s3: "ball_dir_y s3 = ball_dir_y s2 / l" by auto
  from l have n: "(ball_dir_y s3 < 0 \<longleftrightarrow> ball_dir_y s2 < 0) \<and> (0 < ball_dir_y s3 \<longleftrightarrow> 0 < ball_dir_y s2)"
    unfolding s3 by (simp add: divide_less_0_iff zero_less_divide_iff)
  from limit_angle_SomeD [OF assms(2)]
  have "(ball_dir_y s4 < 0 \<longleftrightarrow> ball_dir_y s3 < 0) \<and> (0 < ball_dir_y s4 \<longleftrightarrow> 0 < ball_dir_y s3)"
  proof
    assume "\<bar>ball_dir_y s3\<bar> \<le> 0.707106781 \<and> s4 = s3"
    then show ?thesis by simp
  next
    assume a: "\<bar>ball_dir_y s3\<bar> > 0.707106781 \<and>
          s4 = s3\<lparr>ball_dir_x := (if ball_dir_x s3 > 0 then 1 else - 1) / sqrt 2,
                  ball_dir_y := (if ball_dir_y s3 > 0 then 1 else - 1) / sqrt 2\<rparr>"
    then have e: "ball_dir_y s4 = (if ball_dir_y s3 > 0 then 1 else - 1) / sqrt 2" by simp
    from a have "ball_dir_y s3 \<noteq> 0" by auto
    then show ?thesis unfolding e by (auto simp: divide_less_0_iff zero_less_divide_iff)
  qed
  with n show ?thesis by blast
qed

lemma crossed_t_nonneg:
  fixes x lx L tw t :: real
  assumes "\<bar>lx\<bar> < L" and "L \<le> \<bar>x\<bar>" and "snd (reflect x lx L tw) = Some t" and "0 \<le> tw"
  shows "0 \<le> t"
proof -
  from assms(1) have L: "0 < L" by simp
  from assms(2) consider "L \<le> x" | "x \<le> - L" by (auto simp: abs_if split: if_splits)
  then show ?thesis
  proof cases
    case 1
    from assms(1) have "lx < L" by simp
    from backup_hi [OF this 1 assms(3,4) L] show ?thesis by simp
  next
    case 2
    from assms(1) have "- L < lx" by simp
    from backup_lo [OF this 2 assms(3,4) L] show ?thesis by simp
  qed
qed

lemma reflect_paddles_away:
  assumes f2: "reflect_paddles f1 = Some f2"
    and unit: "unit_dir (game f1)"
    and pcs: "\<forall>i<2. paddle_ok (pos (player_contexts (game f1) ! i))"
    and tw: "0 \<le> loc_t f1" and v: "0 < speed (game f1)"
    and flat: "ball_dir_y (game f1) = 0 \<longrightarrow> \<bar>ball_pos_y (game f1)\<bar> \<le> FIELD_HEIGHT * 0.5"
    and up: "FIELD_HEIGHT * 0.5 < ball_pos_y (game f1) \<longrightarrow> 0 \<le> ball_dir_y (game f1)"
    and down: "ball_pos_y (game f1) < - (FIELD_HEIGHT * 0.5) \<longrightarrow> ball_dir_y (game f1) \<le> 0"
  shows "(ball_dir_y (game f2) = 0 \<longrightarrow> \<bar>ball_pos_y (game f2)\<bar> \<le> FIELD_HEIGHT * 0.5) \<and>
         (FIELD_HEIGHT * 0.5 < ball_pos_y (game f2) \<longrightarrow> 0 \<le> ball_dir_y (game f2)) \<and>
         (ball_pos_y (game f2) < - (FIELD_HEIGHT * 0.5) \<longrightarrow> ball_dir_y (game f2) \<le> 0)"
  using f2
proof (cases rule: reflect_paddles_SomeD)
  case miss
  with flat up down show ?thesis by simp
next
  case (hit t s3 s4 p)
  define pl :: nat where "pl = (if ball_pos_x (game f1) > 0 then 1 else 0)"
  define yb where "yb = ball_pos_y (game f1) - t * ball_dy f1"
  define c1 where "c1 = ball_dir_y (game f1)"
  define b where "b = c1 + (yb - p) / PADDLE_SIZE * 2"
  define d4 where "d4 = ball_dir_y s4"
  define w where "w = t * (speed (game f1) * d4)"
  have "pl < 2" by (simp add: pl_def)
  with pcs hit(11) have P: "\<bar>p\<bar> \<le> 3" by (auto simp: pl_def paddle_ok_def field_consts)
  from unit have c1: "\<bar>c1\<bar> \<le> 1" unfolding c1_def by (rule unit_dir_y_le_1)
  have b: "b = c1 + yb - p" by (simp add: b_def field_consts)
  from hit(1) have "\<bar>last_ball_pos_x (game f1)\<bar> < FIELD_WIDTH * 0.5"
    and "FIELD_WIDTH * 0.5 \<le> \<bar>ball_pos_x (game f1)\<bar>" by blast+
  from this hit(2) tw have t: "0 \<le> t" by (rule crossed_t_nonneg)
  from rebound_dir_y_sign [OF hit(3,4)]
  have sg: "(d4 < 0 \<longleftrightarrow> b < 0) \<and> (0 < d4 \<longleftrightarrow> 0 < b)"
    by (simp add: d4_def b_def yb_def c1_def)
  have y: "ball_pos_y (game f2) = yb + w" and d: "ball_dir_y (game f2) = d4"
    using hit(5) normalizeVel_fields [OF hit(3)] limit_angle_fields [OF hit(4)]
    by (simp_all add: yb_def w_def d4_def)
  consider "d4 = 0" | "d4 < 0" | "0 < d4" by linarith
  then show ?thesis
  proof cases
    case 1
    with sg have "b = 0" by auto
    with b P c1 have "\<bar>yb\<bar> \<le> 4" by (simp add: abs_le_iff)
    moreover from 1 have "w = 0" by (simp add: w_def)
    ultimately show ?thesis unfolding y d by (simp add: field_consts 1)
  next
    case 2
    with sg have "b < 0" by simp
    with b P c1 have "yb < 4" by (simp add: abs_le_iff)
    moreover from 2 v have "speed (game f1) * d4 < 0" by (simp add: mult_pos_neg)
    with t have "w \<le> 0" unfolding w_def by (simp add: mult_nonneg_nonpos)
    ultimately show ?thesis unfolding y d using 2 by (simp add: field_consts)
  next
    case 3
    with sg have "0 < b" by simp
    with b P c1 have "- 4 < yb" by (simp add: abs_le_iff)
    moreover from 3 v have "0 < speed (game f1) * d4" by simp
    with t have "0 \<le> w" unfolding w_def by simp
    ultimately show ?thesis unfolding y d using 3 by (simp add: field_consts)
  qed
qed

lemma reflect_paddles_steep:
  assumes "reflect_paddles f1 = Some f2" and "\<bar>ball_dir_y (game f1)\<bar> \<le> sqrt 2 / 2"
  shows "\<bar>ball_dir_y (game f2)\<bar> \<le> sqrt 2 / 2"
  using assms(1)
proof (cases rule: reflect_paddles_SomeD)
  case miss
  with assms(2) show ?thesis by simp
next
  case (hit t s3 s4 p)
  from hit(4) have "\<bar>ball_dir_y s4\<bar> \<le> sqrt 2 / 2" by (rule limit_angle_cap)
  with hit(5) show ?thesis by simp
qed

lemma bounce_walls_steep:
  assumes "bounce_walls (advance s) = Some f1"
  shows "\<bar>ball_dir_y (game f1)\<bar> = \<bar>ball_dir_y s\<bar>"
  using assms by (cases rule: bounce_walls_SomeD) (simp_all add: advance_simps)

lemma inv_sqrt2_nonzero: "(if b then 1 else - 1) / sqrt 2 \<noteq> (0::real)"
  by simp

lemma abs_inv_sqrt2: "\<bar>(if b then 1 else - 1) / sqrt 2\<bar> = sqrt 2 / 2"
  by (simp add: inv_sqrt2 two_div_sqrt2)

lemma spinOnce_well_formed:
  assumes wf: "well_formed s" and step: "spinOnce s r = Some (s', evs)"
  shows "well_formed s'"
  using step
proof (cases rule: spinOnce_cases)
  case idle
  with wf show ?thesis by simp
next
  case (run f1 f2 f3)
  note w = well_formedD [OF wf]
  from wf obtain k :: nat where k: "speed s = 5 * UPDATE_RATE + real k * 0.0002"
    unfolding well_formed_def by blast
  have g1: "player_contexts (game f1) = player_contexts s" "speed (game f1) = speed s"
    "ball_dir_x (game f1) = ball_dir_x s"
    using bounce_walls_fields [OF run(3)] by (simp_all add: advance_simps)
  have u1: "unit_dir (game f1)" using run(3) w(5) by (auto intro: bounce_walls_unit simp: advance_unit)
  have st1: "\<bar>ball_dir_y (game f1)\<bar> \<le> sqrt 2 / 2" using bounce_walls_steep [OF run(3)] w(6) by simp
  have flat1: "ball_dir_y (game f1) = 0 \<longrightarrow> \<bar>ball_pos_y (game f1)\<bar> \<le> FIELD_HEIGHT * 0.5"
    using run(3) w(9) by (rule bounce_walls_flat)
  have t1: "0 \<le> loc_t f1" using run(3) w(4) w(10) w(11) w(12) by (rule bounce_walls_advance_t)
  have away1: "(FIELD_HEIGHT * 0.5 < ball_pos_y (game f1) \<longrightarrow> 0 \<le> ball_dir_y (game f1)) \<and>
         (ball_pos_y (game f1) < - (FIELD_HEIGHT * 0.5) \<longrightarrow> ball_dir_y (game f1) \<le> 0)"
    using run(3) w(4) w(10) w(11) w(9) w(12) by (rule bounce_walls_away)
  have pcs1: "\<forall>i<2. paddle_ok (pos (player_contexts (game f1) ! i))" using w(2) g1 by simp
  have v1: "0 < speed (game f1)" using w(12) g1 by simp
  have g2: "player_contexts (game f2) = player_contexts s" "speed (game f2) = speed s"
    using reflect_paddles_fields [OF run(4)] g1 by simp_all
  have u2: "unit_dir (game f2)" using run(4) u1 by (rule reflect_paddles_unit)
  have st2: "\<bar>ball_dir_y (game f2)\<bar> \<le> sqrt 2 / 2" using run(4) st1 by (rule reflect_paddles_steep)
  from away1 have up1: "FIELD_HEIGHT * 0.5 < ball_pos_y (game f1) \<longrightarrow> 0 \<le> ball_dir_y (game f1)"
    and down1: "ball_pos_y (game f1) < - (FIELD_HEIGHT * 0.5) \<longrightarrow> ball_dir_y (game f1) \<le> 0" by blast+
  have away2: "(ball_dir_y (game f2) = 0 \<longrightarrow> \<bar>ball_pos_y (game f2)\<bar> \<le> FIELD_HEIGHT * 0.5) \<and>
         (FIELD_HEIGHT * 0.5 < ball_pos_y (game f2) \<longrightarrow> 0 \<le> ball_dir_y (game f2)) \<and>
         (ball_pos_y (game f2) < - (FIELD_HEIGHT * 0.5) \<longrightarrow> ball_dir_y (game f2) \<le> 0)"
    using run(4) u1 pcs1 t1 v1 flat1 up1 down1 by (rule reflect_paddles_away)
  have u3: "unit_dir (game f3)" using run(5) u2 by (rule check_border_unit)
  from run(5) have "well_formed ((game f3)\<lparr>last_ball_pos_x := ball_pos_x (game f3),
                           last_ball_pos_y := ball_pos_y (game f3),
                           speed := speed (game f3) + 0.0002\<rparr>)"
  proof (cases rule: check_border_SomeD)
    case no_score
    have "speed s + 0.0002 = 5 * UPDATE_RATE + real (Suc k) * 0.0002"
      unfolding k by (simp add: algebra_simps)
    then have sp: "\<exists>k'::nat. speed s + 0.0002 = 5 * UPDATE_RATE + real k' * 0.0002" by blast
    from no_score w(1) w(2) g2 u2 st2 away2 sp show ?thesis
      by (simp add: well_formed_def updateBall_def unit_dir_def)
  next
    case (score t)
    have p: "paddle_ok (pos ((player_contexts s)[1 - player f2 := (player_contexts s ! (1 - player f2))
                    \<lparr>score := score (player_contexts s ! (1 - player f2)) + 1\<rparr>] ! i))" if "i < 2" for i
      using that w(1) w(2) by (cases "i = 1 - player f2") simp_all
    have "5 * UPDATE_RATE + 0.0002 = 5 * UPDATE_RATE + real (Suc 0) * 0.0002" by simp
    then have sp: "\<exists>k'::nat. 5 * UPDATE_RATE + 0.0002 = 5 * UPDATE_RATE + real k' * 0.0002" by blast
    from score(3) u3 w(1) p sp show ?thesis
      by (simp add: well_formed_def unit_dir_def g2 field_consts abs_inv_sqrt2 inv_sqrt2_nonzero two_div_sqrt2 inv_sqrt2)
  qed
  with run(6) show ?thesis by simp
qed

lemma processPaddleFeedback_well_formed:
  assumes "well_formed s"
  shows "well_formed (processPaddleFeedback pl fb s)"
proof (cases "pl < 2")
  case False
  with assms show ?thesis by (simp add: processPaddleFeedback_def)
next
  case True
  note w = well_formedD [OF assms]
  note fr = processPaddleFeedback_frame [OF True w(1), of fb]
  have l: "length (player_contexts (processPaddleFeedback pl fb s)) = 2"
    using w(1) True by (simp add: processPaddleFeedback_def Let_def split: prod.splits)
  have o: "player_contexts (processPaddleFeedback pl fb s) ! i = player_contexts s ! i" if "i \<noteq> pl" for i
    using that True by (simp add: processPaddleFeedback_def Let_def split: prod.splits)
  have "paddle_ok (pos (player_contexts (processPaddleFeedback pl fb s) ! i))" if "i < 2" for i
  proof (cases "i = pl")
    case True
    show ?thesis
    proof (cases "position_y (pose fb) = NaN")
      case True
      with fr \<open>i = pl\<close> show ?thesis by (simp add: paddle_ok_def)
    next
      case False
      with fr obtain p where "pos (player_contexts (processPaddleFeedback pl fb s) ! pl) = Finite p"
        "- ((FIELD_HEIGHT - PADDLE_SIZE) / 2) \<le> p" "p \<le> (FIELD_HEIGHT - PADDLE_SIZE) / 2" by blast
      with \<open>i = pl\<close> show ?thesis by (simp add: paddle_ok_def field_consts)
    qed
  next
    case False
    with o w(2) that show ?thesis by simp
  qed
  moreover from assms fr have "\<exists>k::nat. speed (processPaddleFeedback pl fb s) = 5 * UPDATE_RATE + real k * 0.0002"
    unfolding well_formed_def by simp
  ultimately show ?thesis using assms fr l unfolding well_formed_def unit_dir_def by simp
qed

lemma PongGame_well_formed:
  assumes "PongGame u p v r = Some s"
  shows "well_formed s"
proof -
  have "5 * UPDATE_RATE = 5 * UPDATE_RATE + real (0::nat) * 0.0002" by simp
  then have sp: "\<exists>k::nat. 5 * UPDATE_RATE = 5 * UPDATE_RATE + real k * 0.0002" by blast
  from assms sp show ?thesis
    by (auto simp: PongGame_def reset_Some well_formed_def unit_dir_def diag_unit PlayerContext0_def
      paddle_ok_def abs_inv_sqrt2 field_consts less_Suc_eq numeral_2_eq_2 two_div_sqrt2 inv_sqrt2 split: if_splits)
qed

lemma reachable_well_formed: "reachable s \<Longrightarrow> well_formed s"
proof (induction rule: reachable.induct)
  case (construct u p v r s)
  then show ?case by (rule PongGame_well_formed)
next
  case (tick s r s' evs)
  then show ?case by (blast intro: spinOnce_well_formed)
next
  case (feedback s pl fb)
  from feedback.IH show ?case by (rule processPaddleFeedback_well_formed)
qed

subsection \<open>The ticks of the example games\<close>

lemma near_top_wall_tick:
  "spinOnce near_top_wall 0 = Some (near_top_wall
      \<lparr>server := (server near_top_wall)(''ball'' \<mapsto> \<lparr>position_x = Finite (8 / 15), position_y = Finite 3.7\<rparr>),
       last_ball_pos_x := 8 / 15, last_ball_pos_y := 3.7,
       ball_pos_x := 8 / 15, ball_pos_y := 3.7, ball_dir_y := - 0.6,
       speed := 2 / 3 + 0.0002\<rparr>, [WallBounce])"
  by (simp add: near_top_wall_def in_play_def tick_defs field_consts Let_def)

lemma near_bottom_wall_tick:
  "spinOnce near_bottom_wall 0 = Some (near_bottom_wall
      \<lparr>server := (server near_bottom_wall)(''ball'' \<mapsto> \<lparr>position_x = Finite (8 / 15), position_y = Finite (- 3.7)\<rparr>),
       last_ball_pos_x := 8 / 15, last_ball_pos_y := - 3.7,
       ball_pos_x := 8 / 15, ball_pos_y := - 3.7, ball_dir_y := 0.6,
       speed := 2 / 3 + 0.0002\<rparr>, [WallBounce])"
  by (simp add: near_bottom_wall_def in_play_def tick_defs field_consts Let_def)

lemma mid_field_tick:
  "spinOnce mid_field 0 = Some (mid_field
      \<lparr>server := (server mid_field)(''ball'' \<mapsto> \<lparr>position_x = Finite (8 / 15), position_y = Finite 0.4\<rparr>),
       last_ball_pos_x := 8 / 15, last_ball_pos_y := 0.4,
       ball_pos_x := 8 / 15, ball_pos_y := 0.4,
       speed := 2 / 3 + 0.0002\<rparr>, [])"
  by (simp add: mid_field_def in_play_def tick_defs field_consts Let_def)

lemma beside_paddle_tick:
  "spinOnce beside_paddle 0 = Some (beside_paddle
      \<lparr>server := (server beside_paddle)(''ball'' \<mapsto> \<lparr>position_x = Finite (193 / 30), position_y = Finite 1.4\<rparr>),
       last_ball_pos_x := 193 / 30, last_ball_pos_y := 1.4,
       ball_pos_x := 193 / 30, ball_pos_y := 1.4,
       speed := 2 / 3 + 0.0002\<rparr>, [])"
  by (simp add: beside_paddle_def in_play_def tick_defs field_consts Let_def)

lemma before_paddle_tick:
  "spinOnce before_paddle 0 = Some (before_paddle
      \<lparr>server := (server before_paddle)(''ball'' \<mapsto> \<lparr>position_x = Finite (163 / 30), position_y = Finite 0\<rparr>),
       last_ball_pos_x := 163 / 30,
       ball_pos_x := 163 / 30, ball_dir_x := - 1,
       speed := 2 / 3 + 0.0002\<rparr>, [PaddleBounce])"
  by (simp add: before_paddle_def in_play_def tick_defs field_consts Let_def)

lemma past_paddle_tick:
  "spinOnce past_paddle 0 = Some (past_paddle
      \<lparr>server := (server past_paddle)(''ball'' \<mapsto> \<lparr>position_x = Finite 6.75, position_y = Finite 0\<rparr>),
       player_contexts := [\<lparr>pos = Finite 0, active = True, score = 1\<rparr>,
                           \<lparr>pos = Finite 3, active = True, score = 0\<rparr>],
       last_ball_pos_x := 0, ball_pos_x := 0,
       ball_dir_x := 1 / sqrt 2, ball_dir_y := - 1 / sqrt 2,
       speed := 5 * UPDATE_RATE + 0.0002\<rparr>, [Score 0])"
  by (simp add: past_paddle_def in_play_def tick_defs field_consts Let_def)



lemma three_fifths_le_sin45: "(3 / 5 :: real) \<le> sqrt 2 / 2"
proof -
  have "(6 / 5 :: real) \<le> sqrt 2" by (rule real_le_rsqrt) (simp add: power2_eq_square)
  then show ?thesis by simp
qed

lemma in_play_well_formed:
  assumes "dx\<^sup>2 + dy\<^sup>2 = 1" and "\<bar>dy\<bar> \<le> 3 / 5"
    and "\<bar>x\<bar> < FIELD_WIDTH * 0.5 + 1.5 * BORDER_SIZE" and "\<bar>y\<bar> \<le> FIELD_HEIGHT * 0.5"
    and "\<bar>p1\<bar> \<le> (FIELD_HEIGHT - PADDLE_SIZE) * 0.5"
    and "v = 5 * UPDATE_RATE + real k * 0.0002"
  shows "well_formed (in_play x y dx dy v p1)"
proof -
  from assms(2) three_fifths_le_sin45 have "\<bar>dy\<bar> \<le> sqrt 2 / 2" by simp
  moreover from assms(6) have "\<exists>k::nat. v = 5 * UPDATE_RATE + real k * 0.0002" by blast
  moreover from assms(4) have "\<not> FIELD_HEIGHT * 0.5 < y" "\<not> y < - (FIELD_HEIGHT * 0.5)" by simp_all
  ultimately show ?thesis using assms(1,3,4,5)
    by (simp add: well_formed_def in_play_def unit_dir_def paddle_ok_def less_Suc_eq numeral_2_eq_2)
qed

lemma examples_well_formed:
  "well_formed near_top_wall" "well_formed near_bottom_wall" "well_formed mid_field"
  "well_formed beside_paddle" "well_formed before_paddle" "well_formed before_paddle_edge"
  "well_formed past_paddle" "well_formed top_right_corner" "well_formed past_paddle_near_top_wall"
  unfolding near_top_wall_def near_bottom_wall_def mid_field_def beside_paddle_def before_paddle_def
    before_paddle_edge_def past_paddle_def top_right_corner_def past_paddle_near_top_wall_def
  by (rule in_play_well_formed [where k = 2500]; simp add: field_consts power2_eq_square)+

lemma sqrt_289_100: "sqrt (289 / 100) = 17 / 10"
  by (rule real_sqrt_unique) (simp_all add: power2_eq_square)

lemma before_paddle_edge_paddle_phase:
  "bounce_walls (advance before_paddle_edge) = Some (advance before_paddle_edge)"
  "reflect_paddles (advance before_paddle_edge) = Some ((advance before_paddle_edge)
     \<lparr>game := before_paddle_edge\<lparr>ball_pos_x := 6 + 3 / 4 * (2 / 3 * (- 1 / sqrt 2)),
                                     ball_pos_y := 9 / 10 + 3 / 4 * (2 / 3 * (1 / sqrt 2)),
                                     ball_dir_x := - 1 / sqrt 2, ball_dir_y := 1 / sqrt 2\<rparr>,
      loc_t := 3 / 4, ball_dx := 2 / 3 * (- 1 / sqrt 2), ball_dy := 2 / 3 * (1 / sqrt 2),
      player := 1, events := [PaddleBounce]\<rparr>)"
  by (simp_all add: before_paddle_edge_def in_play_def tick_defs field_consts Let_def sqrt_289_100)

subsection \<open>What the log of a tick records\<close>

lemma wall_bounce_logged:
  assumes "bounce_walls (advance s) = Some f1"
  shows "events f1 = (if FIELD_HEIGHT * 0.5 < ball_pos_y s + speed s * ball_dir_y s \<or>
                        ball_pos_y s + speed s * ball_dir_y s < - (FIELD_HEIGHT * 0.5)
                      then [WallBounce] else [])"
  using assms by (cases rule: bounce_walls_SomeD) (auto simp: advance_simps)

lemma paddle_bounce_logged:
  assumes "reflect_paddles f1 = Some f2"
  shows "events f2 =
     (if \<bar>last_ball_pos_x (game f1)\<bar> < FIELD_WIDTH * 0.5 \<and> \<bar>ball_pos_x (game f1)\<bar> \<ge> FIELD_WIDTH * 0.5 \<and>
         (\<exists>p. pos (player_contexts (game f1) ! (if ball_pos_x (game f1) > 0 then 1 else 0)) = Finite p \<and>
              p - PADDLE_SIZE * 0.5 - 0.5 * BORDER_SIZE < ball_pos_y (game f1) \<and>
              ball_pos_y (game f1) < p + PADDLE_SIZE * 0.5 + 0.5 * BORDER_SIZE)
      then events f1 @ [PaddleBounce] else events f1)"
  using assms
proof (cases rule: reflect_paddles_SomeD)
  case miss
  then show ?thesis by simp
next
  case (hit t s3 s4 p)
  from hit(1,9) show ?thesis by simp
qed

lemma score_logged:
  assumes "check_border f2 r = Some f3"
  shows "events f3 =
     (if \<bar>ball_pos_x (game f2)\<bar> \<ge> FIELD_WIDTH * 0.5 + 1.5 * BORDER_SIZE
      then events f2 @ [Score (1 - player f2)] else events f2)"
  using assms by (cases rule: check_border_SomeD) simp_all

lemma wall_bounce_only:
  assumes step: "spinOnce s r = Some (s', evs)" and evs: "evs = [WallBounce]"
  shows "\<exists>f1. bounce_walls (advance s) = Some f1 \<and>
          ball_pos_x s' = ball_pos_x (game f1) \<and> ball_pos_y s' = ball_pos_y (game f1) \<and>
          ball_dir_x s' = ball_dir_x (game f1) \<and> ball_dir_y s' = ball_dir_y (game f1)"
  using step
proof (cases rule: spinOnce_cases)
  case idle
  with evs show ?thesis by simp
next
  case (run f1 f2 f3)
  from run(3) have e1: "PaddleBounce \<notin> set (events f1)" "\<forall>p. Score p \<notin> set (events f1)"
    by (simp_all add: wall_bounce_logged)
  from run(7) evs have ev3: "events f3 = [WallBounce]" by simp
  then have "PaddleBounce \<notin> set (events f3)" by simp
  with check_border_events(1) [OF run(5)] have e3: "PaddleBounce \<notin> set (events f2)" by simp
  from run(4) have g2: "game f2 = game f1"
  proof (cases rule: reflect_paddles_SomeD)
    case miss
    then show ?thesis by simp
  next
    case (hit t s3 s4 p)
    with e3 show ?thesis by simp
  qed
  from run(3,4) have ns: "\<And>p. Score p \<notin> set (events f2)" by (rule no_score_before_border)
  from run(5) have "game f3 = updateBall (game f2)"
  proof (cases rule: check_border_SomeD)
    case no_score
    then show ?thesis by simp
  next
    case (score t)
    from score(4) ev3 have "Score (1 - player f2) \<in> set [WallBounce]" by simp
    then show ?thesis by simp
  qed
  with g2 run(6) have "ball_pos_x s' = ball_pos_x (game f1) \<and> ball_pos_y s' = ball_pos_y (game f1) \<and>
          ball_dir_x s' = ball_dir_x (game f1) \<and> ball_dir_y s' = ball_dir_y (game f1)"
    by (simp add: updateBall_def)
  with run(3) show ?thesis by blast
qed

lemma wall_bounce_characterised:
  "let dx = speed s * ball_dir_x s; dy = speed s * ball_dir_y s;
       px = ball_pos_x s + dx; py = ball_pos_y s + dy;
       beyond = (FIELD_HEIGHT * 0.5 < py \<or> py < - (FIELD_HEIGHT * 0.5));
       t = (if FIELD_HEIGHT * 0.5 < py then (py - FIELD_HEIGHT * 0.5) / (py - last_ball_pos_y s)
            else (- py - FIELD_HEIGHT * 0.5) / (last_ball_pos_y s - py))
   in (beyond \<and> py \<noteq> last_ball_pos_y s \<longrightarrow>
         bounce_walls (advance s) =
           Some ((advance s)\<lparr>game := s\<lparr>ball_pos_x := (px - t * dx) + t * dx,
                                        ball_pos_y := (py - t * dy) + t * (- dy),
                                        ball_dir_y := - ball_dir_y s\<rparr>,
                             loc_t := t, ball_dx := dx, ball_dy := - dy,
                             events := [WallBounce]\<rparr>) \<and>
         (last_ball_pos_y s = ball_pos_y s \<longrightarrow>
            py - t * dy = (if FIELD_HEIGHT * 0.5 < py then FIELD_HEIGHT * 0.5 else - (FIELD_HEIGHT * 0.5))) \<and>
         (spinOnce s r = Some (s', evs) \<and> evs = [WallBounce] \<longrightarrow>
            ball_pos_x s' = (px - t * dx) + t * dx \<and> ball_pos_y s' = (py - t * dy) + t * (- dy) \<and>
            ball_dir_x s' = ball_dir_x s \<and> ball_dir_y s' = - ball_dir_y s)) \<and>
      (\<not> beyond \<longrightarrow> bounce_walls (advance s) = Some (advance s)) \<and>
      (well_formed s \<and> beyond \<longrightarrow> py \<noteq> last_ball_pos_y s \<and> last_ball_pos_y s = ball_pos_y s)"
proof -
  define dx dy where "dx = speed s * ball_dir_x s" and "dy = speed s * ball_dir_y s"
  define px py where "px = ball_pos_x s + dx" and "py = ball_pos_y s + dy"
  define t where "t = (if FIELD_HEIGHT * 0.5 < py then (py - FIELD_HEIGHT * 0.5) / (py - last_ball_pos_y s)
            else (- py - FIELD_HEIGHT * 0.5) / (last_ball_pos_y s - py))"
  note d = t_def py_def px_def dy_def dx_def
  have hit: "bounce_walls (advance s) =
           Some ((advance s)\<lparr>game := s\<lparr>ball_pos_x := (px - t * dx) + t * dx,
                                        ball_pos_y := (py - t * dy) + t * (- dy),
                                        ball_dir_y := - ball_dir_y s\<rparr>,
                             loc_t := t, ball_dx := dx, ball_dy := - dy,
                             events := [WallBounce]\<rparr>)"
    if "FIELD_HEIGHT * 0.5 < py \<or> py < - (FIELD_HEIGHT * 0.5)" and "py \<noteq> last_ball_pos_y s"
    using that unfolding d by (rule bounce_walls_beyond(1))
  have onwall: "py - t * dy = (if FIELD_HEIGHT * 0.5 < py then FIELD_HEIGHT * 0.5 else - (FIELD_HEIGHT * 0.5))"
    if "FIELD_HEIGHT * 0.5 < py \<or> py < - (FIELD_HEIGHT * 0.5)" and "py \<noteq> last_ball_pos_y s"
      and "last_ball_pos_y s = ball_pos_y s"
  proof -
    from that(2,3) have dy: "dy \<noteq> 0" by (simp add: py_def)
    from that(3) have e: "py - last_ball_pos_y s = dy" "last_ball_pos_y s - py = - dy" by (simp_all add: py_def)
    show ?thesis unfolding t_def e using dy by simp
  qed
  have tick: "ball_pos_x s' = (px - t * dx) + t * dx \<and> ball_pos_y s' = (py - t * dy) + t * (- dy) \<and>
            ball_dir_x s' = ball_dir_x s \<and> ball_dir_y s' = - ball_dir_y s"
    if "FIELD_HEIGHT * 0.5 < py \<or> py < - (FIELD_HEIGHT * 0.5)" and "py \<noteq> last_ball_pos_y s"
      and "spinOnce s r = Some (s', evs)" and "evs = [WallBounce]"
  proof -
    from wall_bounce_only [OF that(3,4)] hit [OF that(1,2)] show ?thesis by auto
  qed
  have miss: "bounce_walls (advance s) = Some (advance s)"
    if "\<not> (FIELD_HEIGHT * 0.5 < py \<or> py < - (FIELD_HEIGHT * 0.5))"
    using that unfolding d by (rule bounce_walls_within)
  have moved: "py \<noteq> last_ball_pos_y s \<and> last_ball_pos_y s = ball_pos_y s"
    if wf: "well_formed s" and b: "FIELD_HEIGHT * 0.5 < py \<or> py < - (FIELD_HEIGHT * 0.5)"
  proof -
    note w = well_formedD [OF wf]
    from beyond_moving_out [OF w(10,11,9,12)] b have "ball_dir_y s \<noteq> 0" unfolding d by auto
    with w(12) have "dy \<noteq> 0" by (simp add: dy_def)
    with w(4) show ?thesis by (simp add: py_def)
  qed
  from hit onwall tick miss moved show ?thesis
    unfolding Let_def d [symmetric] by blast
qed

subsection \<open>What the claims rest on\<close>

lemma paddle_reflection_characterised:
  assumes "spinOnce s r = Some (s', evs)"
    and "active (player_contexts s ! 0)" and "active (player_contexts s ! 1)"
  shows "\<exists>f1 f2. bounce_walls (advance s) = Some f1 \<and> reflect_paddles f1 = Some f2 \<and>
           ball_pos_x (game f1) = ball_pos_x s + speed s * ball_dir_x s \<and>
           (let pl = (if ball_pos_x (game f1) > 0 then 1 else 0 :: nat);
                hits = (\<bar>last_ball_pos_x s\<bar> < FIELD_WIDTH * 0.5 \<and> \<bar>ball_pos_x (game f1)\<bar> \<ge> FIELD_WIDTH * 0.5 \<and>
                   (\<exists>p. pos (player_contexts s ! pl) = Finite p \<and>
                        p - PADDLE_SIZE * 0.5 - 0.5 * BORDER_SIZE < ball_pos_y (game f1) \<and>
                        ball_pos_y (game f1) < p + PADDLE_SIZE * 0.5 + 0.5 * BORDER_SIZE))
            in (hits \<longrightarrow> PaddleBounce \<in> set evs \<and>
                  (0 < ball_dir_x s \<longrightarrow> ball_dir_x (game f2) < 0 \<and> ball_dir_x s' < 0) \<and>
                  (ball_dir_x s < 0 \<longrightarrow> 0 < ball_dir_x (game f2) \<and> 0 < ball_dir_x s')) \<and>
               (\<not> hits \<longrightarrow> PaddleBounce \<notin> set evs \<and>
                  game f2 = game f1 \<and> loc_t f2 = loc_t f1 \<and>
                  ball_dx f2 = ball_dx f1 \<and> ball_dy f2 = ball_dy f1 \<and>
                  (0 < ball_dir_x s' \<longleftrightarrow> 0 < ball_dir_x s) \<and>
                  ((\<forall>q. Score q \<notin> set evs) \<longrightarrow> ball_dir_x s' = ball_dir_x s)))"
proof -
  from assms obtain f1 f2 f3 where f1: "bounce_walls (advance s) = Some f1"
    and f2: "reflect_paddles f1 = Some f2" and f3: "check_border f2 r = Some f3"
    and s': "s' = (game f3)\<lparr>last_ball_pos_x := ball_pos_x (game f3),
                               last_ball_pos_y := ball_pos_y (game f3),
                               speed := speed (game f3) + 0.0002\<rparr>"
    and evs: "evs = events f3"
    by (rule spinOnce_SomeD)
  define pl :: nat where "pl = (if ball_pos_x (game f1) > 0 then 1 else 0)"
  define hits where "hits \<longleftrightarrow> \<bar>last_ball_pos_x s\<bar> < FIELD_WIDTH * 0.5 \<and> \<bar>ball_pos_x (game f1)\<bar> \<ge> FIELD_WIDTH * 0.5 \<and>
                   (\<exists>p. pos (player_contexts s ! pl) = Finite p \<and>
                        p - PADDLE_SIZE * 0.5 - 0.5 * BORDER_SIZE < ball_pos_y (game f1) \<and>
                        ball_pos_y (game f1) < p + PADDLE_SIZE * 0.5 + 0.5 * BORDER_SIZE)"
  have ev: "PaddleBounce \<in> set evs \<longleftrightarrow> PaddleBounce \<in> set (events f2)"
    using check_border_events(1) [OF f3] evs by simp
  have n1: "PaddleBounce \<notin> set (events f1)"
    using bounce_walls_events(1) [OF f1] by (simp add: advance_events)
  have g1: "last_ball_pos_x (game f1) = last_ball_pos_x s" "player_contexts (game f1) = player_contexts s"
    "ball_dir_x (game f1) = ball_dir_x s"
    using bounce_walls_fields [OF f1] by (simp_all add: advance_simps)
  have logged: "PaddleBounce \<in> set (events f2) \<longleftrightarrow> hits"
    using n1 unfolding paddle_bounce_logged [OF f2] hits_def pl_def g1 by simp
  have keep: "(0 < ball_dir_x (game f2) \<longrightarrow> 0 < ball_dir_x s') \<and> (ball_dir_x (game f2) < 0 \<longrightarrow> ball_dir_x s' < 0)"
    using check_border_sign [OF f3] by (simp add: s')
  have keep': "0 < ball_dir_x s' \<longleftrightarrow> 0 < ball_dir_x (game f2)"
    using f3 by (cases rule: check_border_SomeD) (simp_all add: s' updateBall_def)
  have hit: "PaddleBounce \<in> set evs \<and>
                  (0 < ball_dir_x s \<longrightarrow> ball_dir_x (game f2) < 0 \<and> ball_dir_x s' < 0) \<and>
                  (ball_dir_x s < 0 \<longrightarrow> 0 < ball_dir_x (game f2) \<and> 0 < ball_dir_x s')" if hits
  proof -
    from that logged have 2: "PaddleBounce \<in> set (events f2)" by simp
    from reflect_paddles_sign [OF f2 2 n1] keep 2 ev show ?thesis unfolding g1 by blast
  qed
  have miss: "PaddleBounce \<notin> set evs \<and> game f2 = game f1 \<and> loc_t f2 = loc_t f1 \<and>
                  ball_dx f2 = ball_dx f1 \<and> ball_dy f2 = ball_dy f1 \<and>
                  (0 < ball_dir_x s' \<longleftrightarrow> 0 < ball_dir_x s) \<and>
                  ((\<forall>q. Score q \<notin> set evs) \<longrightarrow> ball_dir_x s' = ball_dir_x s)" if "\<not> hits"
  proof -
    from that logged have 2: "PaddleBounce \<notin> set (events f2)" by simp
    from f2 have "game f2 = game f1 \<and> loc_t f2 = loc_t f1 \<and> ball_dx f2 = ball_dx f1 \<and> ball_dy f2 = ball_dy f1"
    proof (cases rule: reflect_paddles_SomeD)
      case miss
      then show ?thesis by simp
    next
      case (hit t s3 s4 p)
      with 2 show ?thesis by simp
    qed
    then have g: "game f2 = game f1 \<and> loc_t f2 = loc_t f1 \<and> ball_dx f2 = ball_dx f1 \<and> ball_dy f2 = ball_dy f1"
      and d: "ball_dir_x (game f2) = ball_dir_x s" using g1(3) by simp_all
    have "ball_dir_x s' = ball_dir_x s" if "\<forall>q. Score q \<notin> set evs"
      using f3
    proof (cases rule: check_border_SomeD)
      case no_score
      with d show ?thesis by (simp add: s' updateBall_def)
    next
      case (score t)
      from score(4) evs have "Score (1 - player f2) \<in> set evs" by simp
      with that show ?thesis by blast
    qed
    with 2 ev keep' d g show ?thesis by simp
  qed
  from f1 f2 bounce_walls_advance_x(1) [OF f1] hit miss show ?thesis
    unfolding Let_def hits_def pl_def by blast
qed




lemma sint_succ:
  fixes w :: "32 word"
  assumes "sint w < 2147483647"
  shows "sint (w + 1) = sint w + 1"
proof -
  have "- (2 ^ 31) \<le> sint w" using sint_ge [of w] by simp
  with assms have "signed_take_bit 31 (sint w + 1) = sint w + 1"
    by (intro signed_take_bit_int_eq_self) simp_all
  then show ?thesis by (simp add: sint_word_ariths)
qed

lemma sint_succ_max:
  fixes w :: "32 word"
  assumes "sint w = 2147483647"
  shows "sint (w + 1) = - 2147483648"
proof -
  have "signed_take_bit 31 (2147483647 + 1 :: int) = - 2147483648" by simp
  with assms show ?thesis by (simp add: sint_word_ariths)
qed

lemma past_paddle_at_int_max_tick:
  "spinOnce past_paddle_at_int_max 0 = Some (past_paddle_at_int_max
      \<lparr>server := (server past_paddle_at_int_max)(''ball'' \<mapsto> \<lparr>position_x = Finite 6.75, position_y = Finite 0\<rparr>),
       player_contexts := [\<lparr>pos = Finite 0, active = True, score = 2147483647 + 1\<rparr>,
                           \<lparr>pos = Finite 3, active = True, score = 0\<rparr>],
       last_ball_pos_x := 0, ball_pos_x := 0,
       ball_dir_x := 1 / sqrt 2, ball_dir_y := - 1 / sqrt 2,
       speed := 5 * UPDATE_RATE + 0.0002\<rparr>, [Score 0])"
  by (simp add: past_paddle_at_int_max_def past_paddle_def in_play_def tick_defs field_consts Let_def)

lemma past_paddle_at_int_max_well_formed: "well_formed past_paddle_at_int_max"
  using examples_well_formed(7)
  by (simp add: well_formed_def unit_dir_def past_paddle_at_int_max_def past_paddle_def in_play_def
      less_Suc_eq numeral_2_eq_2)

lemma score_changes:
  assumes "length (player_contexts s) = 2" and "spinOnce s r = Some (s', evs)"
  shows "length (player_contexts s') = 2 \<and>
    (if active (player_contexts s ! 0) \<and> active (player_contexts s ! 1) then
       \<exists>f1 f2. bounce_walls (advance s) = Some f1 \<and> reflect_paddles f1 = Some f2 \<and>
         (let pl = (if ball_pos_x (game f1) > 0 then 1 else 0 :: nat) in
          if \<bar>ball_pos_x (game f2)\<bar> \<ge> FIELD_WIDTH * 0.5 + 1.5 * BORDER_SIZE
          then score (player_contexts s' ! (1 - pl)) = score (player_contexts s ! (1 - pl)) + 1 \<and>
               (sint (score (player_contexts s ! (1 - pl))) < 2147483647 \<longrightarrow>
                  sint (score (player_contexts s' ! (1 - pl))) = sint (score (player_contexts s ! (1 - pl))) + 1) \<and>
               (sint (score (player_contexts s ! (1 - pl))) = 2147483647 \<longrightarrow>
                  sint (score (player_contexts s' ! (1 - pl))) = - 2147483648) \<and>
               score (player_contexts s' ! pl) = score (player_contexts s ! pl) \<and>
               Score (1 - pl) \<in> set evs
          else map score (player_contexts s') = map score (player_contexts s) \<and>
               (\<forall>p. Score p \<notin> set evs))
     else map score (player_contexts s') = map score (player_contexts s)) \<and>
    map score (player_contexts (processPaddleFeedback pl' fb s)) = map score (player_contexts s) \<and>
    (\<forall>k g. reset s k = Some g \<longrightarrow> map score (player_contexts g) = map score (player_contexts s))"
proof -
  have rs: "\<forall>k g. reset s k = Some g \<longrightarrow> map score (player_contexts g) = map score (player_contexts s)"
    by (auto simp: reset_Some)
  note pf = processPaddleFeedback_scores [OF assms(1), of pl' fb]
  from assms(2) show ?thesis
  proof (cases rule: spinOnce_cases)
    case idle
    with assms(1) rs pf show ?thesis by auto
  next
    case (run f1 f2 f3)
    define pl :: nat where "pl = (if ball_pos_x (game f1) > 0 then 1 else 0)"
    have pcs: "player_contexts (game f2) = player_contexts s"
      using reflect_paddles_fields(1) [OF run(4)] bounce_walls_fields(1) [OF run(3)]
      by (simp add: advance_simps)
    have plf: "player f2 = pl"
      using reflect_paddles_fields(6) [OF run(4)] by (simp add: pl_def)
    have w: "1 - pl < 2" "pl = 1 - (1 - pl)" by (simp_all add: pl_def)
    have ns: "Score p \<notin> set (events f2)" for p
      using run(3,4) by (rule no_score_before_border)
    have main: "length (player_contexts s') = 2 \<and>
         (if \<bar>ball_pos_x (game f2)\<bar> \<ge> FIELD_WIDTH * 0.5 + 1.5 * BORDER_SIZE
          then score (player_contexts s' ! (1 - pl)) = score (player_contexts s ! (1 - pl)) + 1 \<and>
               (sint (score (player_contexts s ! (1 - pl))) < 2147483647 \<longrightarrow>
                  sint (score (player_contexts s' ! (1 - pl))) = sint (score (player_contexts s ! (1 - pl))) + 1) \<and>
               (sint (score (player_contexts s ! (1 - pl))) = 2147483647 \<longrightarrow>
                  sint (score (player_contexts s' ! (1 - pl))) = - 2147483648) \<and>
               score (player_contexts s' ! pl) = score (player_contexts s ! pl) \<and>
               Score (1 - pl) \<in> set evs
          else map score (player_contexts s') = map score (player_contexts s) \<and>
               (\<forall>p. Score p \<notin> set evs))"
      using run(5)
    proof (cases rule: check_border_SomeD)
      case no_score
      with run(6,7) pcs ns assms(1) show ?thesis by (simp add: updateBall_def)
    next
      case (score t)
      from score(3) run(6) have "player_contexts s' = (player_contexts s)
                 [1 - pl := (player_contexts s ! (1 - pl))
                    \<lparr>score := score (player_contexts s ! (1 - pl)) + 1\<rparr>]"
        by (simp add: pcs plf)
      with score(1,4) run(7) assms(1) score_update [OF assms(1) w]
      have "length (player_contexts s') = 2 \<and>
          score (player_contexts s' ! (1 - pl)) = score (player_contexts s ! (1 - pl)) + 1 \<and>
          score (player_contexts s' ! pl) = score (player_contexts s ! pl) \<and>
          Score (1 - pl) \<in> set evs"
        by (simp add: plf)
      with score(1) sint_succ [of "score (player_contexts s ! (1 - pl))"]
        sint_succ_max [of "score (player_contexts s ! (1 - pl))"]
      show ?thesis by simp
    qed
    have "\<exists>f1 f2. bounce_walls (advance s) = Some f1 \<and> reflect_paddles f1 = Some f2 \<and>
         (let pl = (if ball_pos_x (game f1) > 0 then 1 else 0 :: nat) in
          if \<bar>ball_pos_x (game f2)\<bar> \<ge> FIELD_WIDTH * 0.5 + 1.5 * BORDER_SIZE
          then score (player_contexts s' ! (1 - pl)) = score (player_contexts s ! (1 - pl)) + 1 \<and>
               (sint (score (player_contexts s ! (1 - pl))) < 2147483647 \<longrightarrow>
                  sint (score (player_contexts s' ! (1 - pl))) = sint (score (player_contexts s ! (1 - pl))) + 1) \<and>
               (sint (score (player_contexts s ! (1 - pl))) = 2147483647 \<longrightarrow>
                  sint (score (player_contexts s' ! (1 - pl))) = - 2147483648) \<and>
               score (player_contexts s' ! pl) = score (player_contexts s ! pl) \<and>
               Score (1 - pl) \<in> set evs
          else map score (player_contexts s') = map score (player_contexts s) \<and>
               (\<forall>p. Score p \<notin> set evs))"
      using run(3,4) main unfolding Let_def pl_def by blast
    with main run(1,2) rs pf show ?thesis by simp
  qed
qed

lemma sqrt2_bounds: "1 < sqrt 2" "sqrt 2 < 2"
proof -
  show "1 < sqrt 2" by simp
  show "sqrt 2 < 2" by (rule real_less_lsqrt) simp_all
qed

lemma edge_rebound_inside:
  "\<not> 27 \<le> \<bar>6 - 1 / (2 * sqrt 2)\<bar> * 4" "\<not> 3 < - (2 / sqrt 2)"
proof -
  define c where "c = 1 / (2 * sqrt 2)"
  have p: "0 < c" by (simp add: c_def)
  have "1 < 2 * sqrt 2" using sqrt2_bounds(1) by linarith
  then have "c < 1" by (simp add: c_def field_simps)
  with p have "\<bar>6 - c\<bar> = 6 - c" by simp
  with p have "\<not> 27 \<le> \<bar>6 - c\<bar> * 4" by simp
  then show "\<not> 27 \<le> \<bar>6 - 1 / (2 * sqrt 2)\<bar> * 4" unfolding c_def .
  define d where "d = 2 / sqrt 2"
  have "0 < d" by (simp add: d_def)
  then have "\<not> 3 < - d" by linarith
  then show "\<not> 3 < - (2 / sqrt 2)" unfolding d_def .
qed

lemma before_paddle_edge_tick:
  "spinOnce before_paddle_edge 0 = Some (before_paddle_edge
      \<lparr>server := (server before_paddle_edge)(''ball'' \<mapsto>
          \<lparr>position_x = Finite (6 - 1 / (2 * sqrt 2)), position_y = Finite (9 / 10 + 1 / (2 * sqrt 2))\<rparr>),
       last_ball_pos_x := 6 - 1 / (2 * sqrt 2), last_ball_pos_y := 9 / 10 + 1 / (2 * sqrt 2),
       ball_pos_x := 6 - 1 / (2 * sqrt 2), ball_pos_y := 9 / 10 + 1 / (2 * sqrt 2),
       ball_dir_x := - (1 / sqrt 2), ball_dir_y := 1 / sqrt 2,
       speed := 2 / 3 + 0.0002\<rparr>, [PaddleBounce])"
  by (simp add: before_paddle_edge_def in_play_def tick_defs field_consts Let_def sqrt_289_100
      edge_rebound_inside)

lemma normalizeVel_SomeE:
  assumes "normalizeVel s = Some s'"
  shows "sqrt (ball_dir_x s * ball_dir_x s + ball_dir_y s * ball_dir_y s) \<noteq> 0 \<and>
         ball_dir_x s' = ball_dir_x s / sqrt (ball_dir_x s * ball_dir_x s + ball_dir_y s * ball_dir_y s) \<and>
         ball_dir_y s' = ball_dir_y s / sqrt (ball_dir_x s * ball_dir_x s + ball_dir_y s * ball_dir_y s)"
  using assms by (auto simp: normalizeVel_def Let_def split: if_splits)

lemma limit_angle_dir:
  assumes "limit_angle g = Some g'"
  shows "(0.707106781 < \<bar>ball_dir_y g\<bar> \<longrightarrow>
            ball_dir_x g' = (if 0 < ball_dir_x g then sin (pi / 4) else - sin (pi / 4)) \<and>
            ball_dir_y g' = (if 0 < ball_dir_y g then sin (pi / 4) else - sin (pi / 4))) \<and>
         (\<bar>ball_dir_y g\<bar> \<le> 0.707106781 \<longrightarrow>
            ball_dir_x g' = ball_dir_x g \<and> ball_dir_y g' = ball_dir_y g)"
  using limit_angle_SomeD [OF assms] by (auto simp: sin_45 inv_sqrt2)

lemma paddle_rebound_direction:
  assumes wf: "well_formed s"
    and act: "active (player_contexts s ! 0)" "active (player_contexts s ! 1)"
  shows "\<exists>f1 f2 s' evs.
     bounce_walls (advance s) = Some f1 \<and> reflect_paddles f1 = Some f2 \<and>
     spinOnce s r = Some (s', evs) \<and>
     (\<forall>p. (let x = ball_pos_x s + speed s * ball_dir_x s; y = ball_pos_y (game f1);
               t = (if FIELD_WIDTH * 0.5 < x then (x - FIELD_WIDTH * 0.5) / (x - ball_pos_x s)
                    else if FIELD_WIDTH * 0.5 < - x then (- x - FIELD_WIDTH * 0.5) / (ball_pos_x s - x)
                    else loc_t f1);
               ax = - ball_dir_x s;
               ay = ball_dir_y (game f1) + (y - t * ball_dy f1 - p) / PADDLE_SIZE * 2;
               l = sqrt (ax * ax + ay * ay)
           in \<bar>ball_pos_x s\<bar> < FIELD_WIDTH * 0.5 \<and> \<bar>x\<bar> \<ge> FIELD_WIDTH * 0.5 \<and>
              pos (player_contexts s ! (if x > 0 then 1 else 0)) = Finite p \<and>
              p - PADDLE_SIZE * 0.5 - 0.5 * BORDER_SIZE < y \<and> y < p + PADDLE_SIZE * 0.5 + 0.5 * BORDER_SIZE \<longrightarrow>
              l \<noteq> 0 \<and>
              (0.707106781 < \<bar>ay / l\<bar> \<longrightarrow>
                 ball_dir_x (game f2) = (if 0 < ax / l then sin (pi / 4) else - sin (pi / 4)) \<and>
                 ball_dir_y (game f2) = (if 0 < ay / l then sin (pi / 4) else - sin (pi / 4))) \<and>
              (\<bar>ay / l\<bar> \<le> 0.707106781 \<longrightarrow>
                 ball_dir_x (game f2) = ax / l \<and> ball_dir_y (game f2) = ay / l) \<and>
              \<bar>ball_dir_y (game f2)\<bar> \<le> sin (pi / 4) \<and> \<bar>ball_dir_y s'\<bar> \<le> sin (pi / 4) \<and>
              ((\<forall>q. Score q \<notin> set evs) \<longrightarrow>
                 ball_dir_x s' = ball_dir_x (game f2) \<and> ball_dir_y s' = ball_dir_y (game f2)))) \<and>
     0.707106781 < sin (pi / 4)"
proof -
  note w = well_formedD [OF wf]
  from wf obtain s' evs where step: "spinOnce s r = Some (s', evs)" using spinOnce_total by blast
  from step act obtain f1 f2 f3 where f1: "bounce_walls (advance s) = Some f1"
    and f2: "reflect_paddles f1 = Some f2" and f3: "check_border f2 r = Some f3"
    and s': "s' = (game f3)\<lparr>last_ball_pos_x := ball_pos_x (game f3),
                               last_ball_pos_y := ball_pos_y (game f3),
                               speed := speed (game f3) + 0.0002\<rparr>"
    and evs: "evs = events f3"
    by (rule spinOnce_SomeD)
  have g1: "last_ball_pos_x (game f1) = ball_pos_x s" "player_contexts (game f1) = player_contexts s"
    "ball_pos_x (game f1) = ball_pos_x s + speed s * ball_dir_x s" "ball_dir_x (game f1) = ball_dir_x s"
    using bounce_walls_fields [OF f1] bounce_walls_advance_x(1) [OF f1] w(3) by (simp_all add: advance_simps)
  have st1: "\<bar>ball_dir_y (game f1)\<bar> \<le> sqrt 2 / 2" using bounce_walls_steep [OF f1] w(6) by simp
  have st2: "\<bar>ball_dir_y (game f2)\<bar> \<le> sqrt 2 / 2" using f2 st1 by (rule reflect_paddles_steep)
  have st3: "\<bar>ball_dir_y (game f3)\<bar> \<le> sqrt 2 / 2" using f3 st2 by (rule check_border_cap)
  have cap: "\<bar>ball_dir_y (game f2)\<bar> \<le> sin (pi / 4)" "\<bar>ball_dir_y s'\<bar> \<le> sin (pi / 4)"
    using st2 st3 by (simp_all add: sin_45 s')
  have same: "ball_dir_x s' = ball_dir_x (game f2) \<and> ball_dir_y s' = ball_dir_y (game f2)"
    if "\<forall>q. Score q \<notin> set evs"
    using f3
  proof (cases rule: check_border_SomeD)
    case no_score
    then show ?thesis by (simp add: s' updateBall_def)
  next
    case (score t)
    from score(4) evs have "Score (1 - player f2) \<in> set evs" by simp
    with that show ?thesis by blast
  qed
  have main: "sqrt (ax * ax + ay * ay) \<noteq> 0 \<and>
      (0.707106781 < \<bar>ay / sqrt (ax * ax + ay * ay)\<bar> \<longrightarrow>
         ball_dir_x (game f2) = (if 0 < ax / sqrt (ax * ax + ay * ay) then sin (pi / 4) else - sin (pi / 4)) \<and>
         ball_dir_y (game f2) = (if 0 < ay / sqrt (ax * ax + ay * ay) then sin (pi / 4) else - sin (pi / 4))) \<and>
      (\<bar>ay / sqrt (ax * ax + ay * ay)\<bar> \<le> 0.707106781 \<longrightarrow>
         ball_dir_x (game f2) = ax / sqrt (ax * ax + ay * ay) \<and>
         ball_dir_y (game f2) = ay / sqrt (ax * ax + ay * ay))"
    if x: "x = ball_pos_x s + speed s * ball_dir_x s"
      and t: "t = (if FIELD_WIDTH * 0.5 < x then (x - FIELD_WIDTH * 0.5) / (x - ball_pos_x s)
                    else if FIELD_WIDTH * 0.5 < - x then (- x - FIELD_WIDTH * 0.5) / (ball_pos_x s - x)
                    else loc_t f1)"
      and ax: "ax = - ball_dir_x s"
      and ay: "ay = ball_dir_y (game f1) + (ball_pos_y (game f1) - t * ball_dy f1 - p) / PADDLE_SIZE * 2"
      and c: "\<bar>ball_pos_x s\<bar> < FIELD_WIDTH * 0.5" "\<bar>x\<bar> \<ge> FIELD_WIDTH * 0.5"
        "pos (player_contexts s ! (if x > 0 then 1 else 0)) = Finite p"
        "p - PADDLE_SIZE * 0.5 - 0.5 * BORDER_SIZE < ball_pos_y (game f1)"
        "ball_pos_y (game f1) < p + PADDLE_SIZE * 0.5 + 0.5 * BORDER_SIZE"
    for x t ax ay p
    using f2
  proof (cases rule: reflect_paddles_SomeD)
    case miss
    with c show ?thesis unfolding g1 x by blast
  next
    case (hit t' s3 s4 p')
    from hit(11) c(3) have p': "p' = p" unfolding g1 x by simp
    from c(1,2) have ne: "x \<noteq> ball_pos_x s" by auto
    from hit(2) ne have t': "t' = t"
      unfolding reflect_snd g1 t x [symmetric] fdiv_def by (simp split: if_splits)
    from normalizeVel_SomeE [OF hit(3)] have n: "sqrt (ax * ax + ay * ay) \<noteq> 0"
      "ball_dir_x s3 = ax / sqrt (ax * ax + ay * ay)" "ball_dir_y s3 = ay / sqrt (ax * ax + ay * ay)"
      unfolding p' t' g1 ax ay by simp_all
    from hit(5) have d: "ball_dir_x (game f2) = ball_dir_x s4" "ball_dir_y (game f2) = ball_dir_y s4"
      by simp_all
    from limit_angle_dir [OF hit(4)] n(1) show ?thesis unfolding d n(2,3) by blast
  qed
  have "\<forall>p. (let x = ball_pos_x s + speed s * ball_dir_x s; y = ball_pos_y (game f1);
               t = (if FIELD_WIDTH * 0.5 < x then (x - FIELD_WIDTH * 0.5) / (x - ball_pos_x s)
                    else if FIELD_WIDTH * 0.5 < - x then (- x - FIELD_WIDTH * 0.5) / (ball_pos_x s - x)
                    else loc_t f1);
               ax = - ball_dir_x s;
               ay = ball_dir_y (game f1) + (y - t * ball_dy f1 - p) / PADDLE_SIZE * 2;
               l = sqrt (ax * ax + ay * ay)
           in \<bar>ball_pos_x s\<bar> < FIELD_WIDTH * 0.5 \<and> \<bar>x\<bar> \<ge> FIELD_WIDTH * 0.5 \<and>
              pos (player_contexts s ! (if x > 0 then 1 else 0)) = Finite p \<and>
              p - PADDLE_SIZE * 0.5 - 0.5 * BORDER_SIZE < y \<and> y < p + PADDLE_SIZE * 0.5 + 0.5 * BORDER_SIZE \<longrightarrow>
              l \<noteq> 0 \<and>
              (0.707106781 < \<bar>ay / l\<bar> \<longrightarrow>
                 ball_dir_x (game f2) = (if 0 < ax / l then sin (pi / 4) else - sin (pi / 4)) \<and>
                 ball_dir_y (game f2) = (if 0 < ay / l then sin (pi / 4) else - sin (pi / 4))) \<and>
              (\<bar>ay / l\<bar> \<le> 0.707106781 \<longrightarrow>
                 ball_dir_x (game f2) = ax / l \<and> ball_dir_y (game f2) = ay / l) \<and>
              \<bar>ball_dir_y (game f2)\<bar> \<le> sin (pi / 4) \<and> \<bar>ball_dir_y s'\<bar> \<le> sin (pi / 4) \<and>
              ((\<forall>q. Score q \<notin> set evs) \<longrightarrow>
                 ball_dir_x s' = ball_dir_x (game f2) \<and> ball_dir_y s' = ball_dir_y (game f2)))"
    unfolding Let_def using main [OF refl refl refl refl] cap same by blast
  moreover have "0.707106781 < sin (pi / 4)" using threshold_below_sin45 by (simp add: sin_45)
  ultimately show ?thesis using f1 f2 step by blast
qed

section \<open>The claims\<close>

text \<open>
  C1, as the code has it. A tick first advances the ball by the displacement of the tick
  and then runs the wall bounce. When the advanced ball is beyond the top or the bottom
  wall, \<open>t\<close> is the fraction of the displacement that lies beyond the wall, as the claim
  computes it, and the ball is reflected: the direction keeps its x-component and gets
  its y-component inverted, and the position is the crossing point (the advanced position
  backed up by \<open>t\<close> displacements) plus the fraction \<open>t\<close>, not \<open>1 - t\<close>, of the
  displacement along the inverted direction. When the tick starts with the previous
  position equal to the position, the crossing point is on the wall. A tick that does
  nothing else leaves the ball there. When the advanced ball is between the walls, the
  wall bounce changes nothing. In a well-formed game, as every reachable game is, a ball
  beyond a wall has moved in the tick, so that \<open>t\<close> is a quotient of numbers.
\<close>

theorem wall_bounce_position:
  "let dx = speed s * ball_dir_x s; dy = speed s * ball_dir_y s;
       px = ball_pos_x s + dx; py = ball_pos_y s + dy;
       beyond = (FIELD_HEIGHT * 0.5 < py \<or> py < - (FIELD_HEIGHT * 0.5));
       t = (if FIELD_HEIGHT * 0.5 < py then (py - FIELD_HEIGHT * 0.5) / (py - last_ball_pos_y s)
            else (- py - FIELD_HEIGHT * 0.5) / (last_ball_pos_y s - py))
   in (beyond \<and> py \<noteq> last_ball_pos_y s \<longrightarrow>
         bounce_walls (advance s) =
           Some ((advance s)\<lparr>game := s\<lparr>ball_pos_x := (px - t * dx) + t * dx,
                                        ball_pos_y := (py - t * dy) + t * (- dy),
                                        ball_dir_y := - ball_dir_y s\<rparr>,
                             loc_t := t, ball_dx := dx, ball_dy := - dy,
                             events := [WallBounce]\<rparr>) \<and>
         (last_ball_pos_y s = ball_pos_y s \<longrightarrow>
            py - t * dy = (if FIELD_HEIGHT * 0.5 < py then FIELD_HEIGHT * 0.5 else - (FIELD_HEIGHT * 0.5))) \<and>
         (spinOnce s r = Some (s', evs) \<and> evs = [WallBounce] \<longrightarrow>
            ball_pos_x s' = (px - t * dx) + t * dx \<and> ball_pos_y s' = (py - t * dy) + t * (- dy) \<and>
            ball_dir_x s' = ball_dir_x s \<and> ball_dir_y s' = - ball_dir_y s)) \<and>
      (\<not> beyond \<longrightarrow> bounce_walls (advance s) = Some (advance s)) \<and>
      (well_formed s \<and> beyond \<longrightarrow> py \<noteq> last_ball_pos_y s \<and> last_ball_pos_y s = ball_pos_y s)"
  by (rule wall_bounce_characterised)

theorem wall_bounce_position_witness:
  "well_formed near_top_wall \<and>
   ball_pos_y near_top_wall + speed near_top_wall * ball_dir_y near_top_wall = 4.3 \<and>
   bounce_walls (advance near_top_wall) =
     Some ((advance near_top_wall)
       \<lparr>game := near_top_wall\<lparr>ball_pos_x := 8 / 15, ball_pos_y := 3.7, ball_dir_y := - 0.6\<rparr>,
        loc_t := 0.75, ball_dx := 8 / 15, ball_dy := - 0.4, events := [WallBounce]\<rparr>) \<and>
   snd (the (spinOnce near_top_wall 0)) = [WallBounce] \<and>
   ball_pos_y (fst (the (spinOnce near_top_wall 0))) = (4.3 - 0.75 * 0.4) + 0.75 * (- 0.4) \<and>
   well_formed near_bottom_wall \<and>
   ball_pos_y near_bottom_wall + speed near_bottom_wall * ball_dir_y near_bottom_wall = - 4.3 \<and>
   bounce_walls (advance near_bottom_wall) =
     Some ((advance near_bottom_wall)
       \<lparr>game := near_bottom_wall\<lparr>ball_pos_x := 8 / 15, ball_pos_y := - 3.7, ball_dir_y := 0.6\<rparr>,
        loc_t := 0.75, ball_dx := 8 / 15, ball_dy := 0.4, events := [WallBounce]\<rparr>) \<and>
   ball_pos_y mid_field + speed mid_field * ball_dir_y mid_field = 0.4 \<and>
   bounce_walls (advance mid_field) = Some (advance mid_field)"
proof -
  have top: "speed near_top_wall = 2 / 3" "ball_dir_x near_top_wall = 0.8" "ball_dir_y near_top_wall = 0.6"
    "ball_pos_x near_top_wall = 0" "ball_pos_y near_top_wall = 3.9" "last_ball_pos_y near_top_wall = 3.9"
    by (simp_all add: near_top_wall_def in_play_def)
  have bot: "speed near_bottom_wall = 2 / 3" "ball_dir_x near_bottom_wall = 0.8"
    "ball_dir_y near_bottom_wall = - 0.6" "ball_pos_x near_bottom_wall = 0"
    "ball_pos_y near_bottom_wall = - 3.9" "last_ball_pos_y near_bottom_wall = - 3.9"
    by (simp_all add: near_bottom_wall_def in_play_def)
  have mid: "speed mid_field = 2 / 3" "ball_dir_y mid_field = 0.6" "ball_pos_y mid_field = 0"
    by (simp_all add: mid_field_def in_play_def)
  have e: "spinOnce near_top_wall 0 =
      Some (fst (the (spinOnce near_top_wall 0)), snd (the (spinOnce near_top_wall 0)))"
    and v: "snd (the (spinOnce near_top_wall 0)) = [WallBounce]"
    by (simp_all add: near_top_wall_tick)
  from wall_bounce_position [where s = near_top_wall and r = 0
      and s' = "fst (the (spinOnce near_top_wall 0))" and evs = "snd (the (spinOnce near_top_wall 0))"]
    e v examples_well_formed(1)
  have 1: "well_formed near_top_wall \<and>
   ball_pos_y near_top_wall + speed near_top_wall * ball_dir_y near_top_wall = 4.3 \<and>
   bounce_walls (advance near_top_wall) =
     Some ((advance near_top_wall)
       \<lparr>game := near_top_wall\<lparr>ball_pos_x := 8 / 15, ball_pos_y := 3.7, ball_dir_y := - 0.6\<rparr>,
        loc_t := 0.75, ball_dx := 8 / 15, ball_dy := - 0.4, events := [WallBounce]\<rparr>) \<and>
   snd (the (spinOnce near_top_wall 0)) = [WallBounce] \<and>
   ball_pos_y (fst (the (spinOnce near_top_wall 0))) = (4.3 - 0.75 * 0.4) + 0.75 * (- 0.4)"
    unfolding Let_def top by (simp add: field_consts)
  from wall_bounce_position [where s = near_bottom_wall] examples_well_formed(2)
  have 2: "well_formed near_bottom_wall \<and>
   ball_pos_y near_bottom_wall + speed near_bottom_wall * ball_dir_y near_bottom_wall = - 4.3 \<and>
   bounce_walls (advance near_bottom_wall) =
     Some ((advance near_bottom_wall)
       \<lparr>game := near_bottom_wall\<lparr>ball_pos_x := 8 / 15, ball_pos_y := - 3.7, ball_dir_y := 0.6\<rparr>,
        loc_t := 0.75, ball_dx := 8 / 15, ball_dy := 0.4, events := [WallBounce]\<rparr>)"
    unfolding Let_def bot by (simp add: field_consts)
  from wall_bounce_position [where s = mid_field]
  have 3: "ball_pos_y mid_field + speed mid_field * ball_dir_y mid_field = 0.4 \<and>
   bounce_walls (advance mid_field) = Some (advance mid_field)"
    unfolding Let_def mid by (simp add: field_consts)
  from 1 2 3 show ?thesis by blast
qed

text \<open>
  C1 as stated fails: from \<open>(0, 3.9)\<close> with displacement \<open>(8/15, 0.4)\<close> the ball reaches
  \<open>(8/15, 4.3)\<close>, so \<open>t = 0.3 / 0.4 = 0.75\<close> and the crossing point is \<open>(2/15, 4)\<close>. The
  code leaves the ball at \<open>y = 3.7\<close>; the crossing point plus \<open>1 - t\<close> of the inverted
  displacement is at \<open>y = 3.9\<close>.
\<close>

theorem wall_bounce_remaining_fraction_counterexample:
  "well_formed near_top_wall \<and> spinOnce near_top_wall 0 \<noteq> None \<and>
   snd (the (spinOnce near_top_wall 0)) = [WallBounce] \<and>
   ball_pos_y (game (advance near_top_wall)) = 4.3 \<and>
   loc_t (the (bounce_walls (advance near_top_wall))) = (4.3 - FIELD_HEIGHT * 0.5) / (4.3 - 3.9) \<and>
   ball_pos_y (game (advance near_top_wall)) - 0.75 * ball_dy (advance near_top_wall) = FIELD_HEIGHT * 0.5 \<and>
   ball_pos_y (game (the (bounce_walls (advance near_top_wall)))) = 3.7 \<and>
   ball_pos_y (fst (the (spinOnce near_top_wall 0))) = 3.7 \<and>
   ball_pos_y (fst (the (spinOnce near_top_wall 0))) \<noteq> FIELD_HEIGHT * 0.5 + (1 - 0.75) * (- 0.4)"
  unfolding near_top_wall_tick
  by (rule conjI [OF examples_well_formed(1)])
    (simp add: near_top_wall_def in_play_def tick_defs field_consts Let_def)

text \<open>
  C2, as the code has it. In a tick with both players active, the ball is reflected off
  a paddle exactly when the x-coordinate crossed the goal line of the approached side
  (\<open>|last.x| < W/2 \<le> |pos.x|\<close>) and the paddle position of that side is a number such
  that the y-coordinate of the advanced ball, after the wall bounce and before it is backed
  up to the goal line, lies strictly within the paddle position \<open>\<plusminus> (PADDLE/2 + BORDER/2)\<close>.
  When that holds, the paddle phase and the tick turn a positive x-direction into a negative
  one and a negative one into a positive one. When it does not hold, the paddle phase
  leaves the ball and the displacement as the wall bounce left them, the x-direction
  after the tick is positive exactly when it was before, and it is the same number
  unless the tick scores a point.
\<close>

theorem paddle_reflection_condition:
  assumes "spinOnce s r = Some (s', evs)"
    and "active (player_contexts s ! 0)" and "active (player_contexts s ! 1)"
  shows "\<exists>f1 f2. bounce_walls (advance s) = Some f1 \<and> reflect_paddles f1 = Some f2 \<and>
           ball_pos_x (game f1) = ball_pos_x s + speed s * ball_dir_x s \<and>
           (let pl = (if ball_pos_x (game f1) > 0 then 1 else 0 :: nat);
                hits = (\<bar>last_ball_pos_x s\<bar> < FIELD_WIDTH * 0.5 \<and> \<bar>ball_pos_x (game f1)\<bar> \<ge> FIELD_WIDTH * 0.5 \<and>
                   (\<exists>p. pos (player_contexts s ! pl) = Finite p \<and>
                        p - PADDLE_SIZE * 0.5 - 0.5 * BORDER_SIZE < ball_pos_y (game f1) \<and>
                        ball_pos_y (game f1) < p + PADDLE_SIZE * 0.5 + 0.5 * BORDER_SIZE))
            in (hits \<longrightarrow> PaddleBounce \<in> set evs \<and>
                  (0 < ball_dir_x s \<longrightarrow> ball_dir_x (game f2) < 0 \<and> ball_dir_x s' < 0) \<and>
                  (ball_dir_x s < 0 \<longrightarrow> 0 < ball_dir_x (game f2) \<and> 0 < ball_dir_x s')) \<and>
               (\<not> hits \<longrightarrow> PaddleBounce \<notin> set evs \<and>
                  game f2 = game f1 \<and> loc_t f2 = loc_t f1 \<and>
                  ball_dx f2 = ball_dx f1 \<and> ball_dy f2 = ball_dy f1 \<and>
                  (0 < ball_dir_x s' \<longleftrightarrow> 0 < ball_dir_x s) \<and>
                  ((\<forall>q. Score q \<notin> set evs) \<longrightarrow> ball_dir_x s' = ball_dir_x s)))"
  using assms by (rule paddle_reflection_characterised)

theorem paddle_reflection_condition_witness:
  "well_formed before_paddle \<and> spinOnce before_paddle 0 \<noteq> None \<and>
   active (player_contexts before_paddle ! 0) \<and> active (player_contexts before_paddle ! 1) \<and>
   bounce_walls (advance before_paddle) = Some (advance before_paddle) \<and>
   \<bar>last_ball_pos_x before_paddle\<bar> < FIELD_WIDTH * 0.5 \<and>
   ball_pos_x (game (advance before_paddle)) \<ge> FIELD_WIDTH * 0.5 \<and>
   pos (player_contexts before_paddle ! 1) = Finite 0 \<and>
   0 - PADDLE_SIZE * 0.5 - 0.5 * BORDER_SIZE < ball_pos_y (game (advance before_paddle)) \<and>
   ball_pos_y (game (advance before_paddle)) < 0 + PADDLE_SIZE * 0.5 + 0.5 * BORDER_SIZE \<and>
   0 < ball_dir_x before_paddle \<and>
   ball_dir_x (game (the (reflect_paddles (advance before_paddle)))) < 0 \<and>
   ball_dir_x (fst (the (spinOnce before_paddle 0))) < 0 \<and>
   well_formed beside_paddle \<and> spinOnce beside_paddle 0 \<noteq> None \<and>
   active (player_contexts beside_paddle ! 0) \<and> active (player_contexts beside_paddle ! 1) \<and>
   bounce_walls (advance beside_paddle) = Some (advance beside_paddle) \<and>
   pos (player_contexts beside_paddle ! 1) = Finite 0 \<and>
   \<not> ball_pos_y (game (advance beside_paddle)) < 0 + PADDLE_SIZE * 0.5 + 0.5 * BORDER_SIZE \<and>
   game (the (reflect_paddles (advance beside_paddle))) = game (advance beside_paddle) \<and>
   0 < ball_dir_x beside_paddle \<and>
   0 < ball_dir_x (fst (the (spinOnce beside_paddle 0)))"
proof -
  have a: "active (player_contexts before_paddle ! 0)" "active (player_contexts before_paddle ! 1)"
    and g: "\<bar>last_ball_pos_x before_paddle\<bar> < FIELD_WIDTH * 0.5"
      "ball_pos_x (game (advance before_paddle)) \<ge> FIELD_WIDTH * 0.5"
      "ball_pos_x (game (advance before_paddle)) > 0"
      "pos (player_contexts before_paddle ! 1) = Finite 0"
      "0 - PADDLE_SIZE * 0.5 - 0.5 * BORDER_SIZE < ball_pos_y (game (advance before_paddle))"
      "ball_pos_y (game (advance before_paddle)) < 0 + PADDLE_SIZE * 0.5 + 0.5 * BORDER_SIZE"
      "0 < ball_dir_x before_paddle"
    and w: "bounce_walls (advance before_paddle) = Some (advance before_paddle)"
    by (simp_all add: before_paddle_def in_play_def advance_simps field_consts bounce_walls_within)
  have n: "spinOnce before_paddle 0 \<noteq> None"
    and e: "spinOnce before_paddle 0 =
      Some (fst (the (spinOnce before_paddle 0)), snd (the (spinOnce before_paddle 0)))"
    by (simp_all add: before_paddle_tick)
  from paddle_reflection_condition [OF e a] w g
  have 1: "ball_dir_x (game (the (reflect_paddles (advance before_paddle)))) < 0 \<and>
    ball_dir_x (fst (the (spinOnce before_paddle 0))) < 0"
    by (auto simp: Let_def)
  have a': "active (player_contexts beside_paddle ! 0)" "active (player_contexts beside_paddle ! 1)"
    and g': "ball_pos_x (game (advance beside_paddle)) > 0"
      "pos (player_contexts beside_paddle ! 1) = Finite 0"
      "\<not> ball_pos_y (game (advance beside_paddle)) < 0 + PADDLE_SIZE * 0.5 + 0.5 * BORDER_SIZE"
      "0 < ball_dir_x beside_paddle"
    and w': "bounce_walls (advance beside_paddle) = Some (advance beside_paddle)"
    by (simp_all add: beside_paddle_def in_play_def advance_simps field_consts bounce_walls_within)
  have n': "spinOnce beside_paddle 0 \<noteq> None"
    and e': "spinOnce beside_paddle 0 =
      Some (fst (the (spinOnce beside_paddle 0)), snd (the (spinOnce beside_paddle 0)))"
    by (simp_all add: beside_paddle_tick)
  from paddle_reflection_condition [OF e' a'] w' g'
  have 2: "game (the (reflect_paddles (advance beside_paddle))) = game (advance beside_paddle) \<and>
    0 < ball_dir_x (fst (the (spinOnce beside_paddle 0)))"
    by (auto simp: Let_def)
  from 1 2 a g w n a' g' w' n' examples_well_formed(4,5) show ?thesis by blast
qed

text \<open>
  C2 as stated fails: from \<open>(5.9, 1.0)\<close> with displacement \<open>(8/15, 0.4)\<close> the ball
  crosses the goal line \<open>x = 6\<close> at \<open>y = 1.4 - (13/16) \<cdot> 0.4 = 1.075\<close>, within the
  paddle's extent \<open>(-1.25, 1.25)\<close>, but the code tests \<open>y = 1.4\<close> and does not reflect:
  the ball flies on to \<open>(193/30, 1.4)\<close> with its direction unchanged.
\<close>

theorem paddle_check_at_crossing_point_counterexample:
  "well_formed beside_paddle \<and> spinOnce beside_paddle 0 \<noteq> None \<and>
   bounce_walls (advance beside_paddle) = Some (advance beside_paddle) \<and>
   \<bar>last_ball_pos_x beside_paddle\<bar> < FIELD_WIDTH * 0.5 \<and>
   ball_pos_x (game (advance beside_paddle)) \<ge> FIELD_WIDTH * 0.5 \<and>
   pos (player_contexts beside_paddle ! 1) = Finite 0 \<and>
   crossing_y (advance beside_paddle) = 1.075 \<and>
   crossing_y (advance beside_paddle) > 0 - (PADDLE_SIZE * 0.5 + 0.5 * BORDER_SIZE) \<and>
   crossing_y (advance beside_paddle) < 0 + (PADDLE_SIZE * 0.5 + 0.5 * BORDER_SIZE) \<and>
   PaddleBounce \<notin> set (snd (the (spinOnce beside_paddle 0))) \<and>
   ball_dir_x beside_paddle = 0.8 \<and>
   ball_dir_x (fst (the (spinOnce beside_paddle 0))) = 0.8 \<and>
   ball_pos_x (fst (the (spinOnce beside_paddle 0))) = 193 / 30 \<and>
   ball_pos_y (fst (the (spinOnce beside_paddle 0))) = 1.4"
  unfolding beside_paddle_tick
  by (rule conjI [OF examples_well_formed(4)])
    (simp add: beside_paddle_def in_play_def crossing_y_def tick_defs field_consts Let_def)

text \<open>
  C3, as the code has it. After a tick in which a point is scored the ball and its
  previous position are at \<open>(0, 0)\<close>, the direction has unit length, and the speed is the
  serve value plus the increment of the tick, \<open>5 \<cdot> UPDATE_RATE + 0.0002\<close>: the tick adds
  its increment after \<^verbatim>\<open>reset()\<close>. \<^verbatim>\<open>reset()\<close> itself leaves the ball at the centre with
  a unit direction and the serve value \<open>5 \<cdot> UPDATE_RATE\<close>.
\<close>

theorem score_then_serve:
  "(spinOnce s r = Some (s', evs) \<and> Score p \<in> set evs \<longrightarrow>
      ball_pos_x s' = 0 \<and> ball_pos_y s' = 0 \<and> last_ball_pos_x s' = 0 \<and> last_ball_pos_y s' = 0 \<and>
      (ball_dir_x s')\<^sup>2 + (ball_dir_y s')\<^sup>2 = 1 \<and>
      speed s' = 5 * UPDATE_RATE + 0.0002) \<and>
   (reset g k = Some g' \<longrightarrow>
      ball_pos_x g' = 0 \<and> ball_pos_y g' = 0 \<and> (ball_dir_x g')\<^sup>2 + (ball_dir_y g')\<^sup>2 = 1 \<and>
      speed g' = 5 * UPDATE_RATE)"
proof -
  have a: "ball_pos_x s' = 0 \<and> ball_pos_y s' = 0 \<and> last_ball_pos_x s' = 0 \<and> last_ball_pos_y s' = 0 \<and>
      (ball_dir_x s')\<^sup>2 + (ball_dir_y s')\<^sup>2 = 1 \<and> speed s' = 5 * UPDATE_RATE + 0.0002"
    if "spinOnce s r = Some (s', evs)" and sc: "Score p \<in> set evs"
    using that(1)
  proof (cases rule: spinOnce_cases)
    case idle
    with sc show ?thesis by simp
  next
    case (run f1 f2 f3)
    from run(3,4) have ns: "Score p \<notin> set (events f2)" by (rule no_score_before_border)
    from run(5) show ?thesis
    proof (cases rule: check_border_SomeD)
      case no_score
      with sc run(7) ns show ?thesis by simp
    next
      case (score t)
      with run(6) show ?thesis by (simp add: diag_unit)
    qed
  qed
  have b: "ball_pos_x g' = 0 \<and> ball_pos_y g' = 0 \<and> (ball_dir_x g')\<^sup>2 + (ball_dir_y g')\<^sup>2 = 1 \<and>
      speed g' = 5 * UPDATE_RATE" if "reset g k = Some g'"
    using that by (auto simp: reset_Some diag_unit)
  from a b show ?thesis by blast
qed

theorem score_then_serve_witness:
  "spinOnce past_paddle 0 \<noteq> None \<and> Score 0 \<in> set (snd (the (spinOnce past_paddle 0))) \<and>
   ball_pos_x (fst (the (spinOnce past_paddle 0))) = 0 \<and>
   speed (fst (the (spinOnce past_paddle 0))) = 5 * UPDATE_RATE + 0.0002 \<and>
   reset past_paddle 0 \<noteq> None \<and> speed (the (reset past_paddle 0)) = 5 * UPDATE_RATE"
proof -
  have n: "spinOnce past_paddle 0 \<noteq> None"
    and e: "spinOnce past_paddle 0 =
      Some (fst (the (spinOnce past_paddle 0)), snd (the (spinOnce past_paddle 0)))"
    and p: "Score 0 \<in> set (snd (the (spinOnce past_paddle 0)))"
    by (simp_all add: past_paddle_tick)
  have rn: "reset past_paddle 0 \<noteq> None" and re: "reset past_paddle 0 = Some (the (reset past_paddle 0))"
    by (simp_all add: reset_Some)
  from score_then_serve [of past_paddle 0 "fst (the (spinOnce past_paddle 0))"
      "snd (the (spinOnce past_paddle 0))" 0 past_paddle 0 "the (reset past_paddle 0)"] n e p rn re
  show ?thesis by blast
qed

text \<open>
  C3 as stated fails: the tick that takes the ball from \<open>x = 6.4\<close> past the outer boundary
  at \<open>x = 6.75\<close> scores for player 0, and the speed after it is not \<open>5 \<cdot> UPDATE_RATE\<close>.
\<close>

theorem speed_after_score_counterexample:
  "spinOnce past_paddle 0 \<noteq> None \<and> snd (the (spinOnce past_paddle 0)) = [Score 0] \<and>
   ball_pos_x (fst (the (spinOnce past_paddle 0))) = 0 \<and>
   ball_pos_y (fst (the (spinOnce past_paddle 0))) = 0 \<and>
   speed (fst (the (spinOnce past_paddle 0))) \<noteq> 5 * UPDATE_RATE"
  unfolding past_paddle_tick by (simp add: past_paddle_def in_play_def)

text \<open>
  C4, as the code has it: \<^verbatim>\<open>reflect\<close> has no guard. With the position equal to the
  previous position it reports a crossing exactly when the position is beyond the limit on
  either side, and then \<open>t\<close> is a quotient by the zero displacement; otherwise it reports
  no crossing and leaves \<open>t\<close> as it was.
\<close>

theorem reflect_zero_displacement:
  "reflect p p limit t = (if p > limit \<or> - p > limit then (True, None) else (False, Some t))"
  by (simp add: reflect_def fdiv_def)

theorem reflect_zero_displacement_witness:
  "reflect 3 3 4 7 = (False, Some 7) \<and> reflect (- 5) (- 5) 4 7 = (True, None)"
  using reflect_zero_displacement [of 3 4 7] reflect_zero_displacement [of "- 5" 4 7] by simp

text \<open>
  C4 as stated fails: at position 5, previous position 5 and limit 4 the call reports a
  crossing, and \<open>t\<close> is \<open>(5 - 4) / (5 - 5)\<close>.
\<close>

theorem reflect_unguarded_counterexample:
  "reflect 5 5 4 0 = (True, None)"
  by (simp add: reflect_def fdiv_def)




text \<open>
  C6, as the code has it. The score is a 32-bit \<^verbatim>\<open>int\<close>, whose value is \<open>sint\<close> of the
  word. A tick with both players active changes a score exactly when the x-coordinate of
  the ball, after the paddle phase, has magnitude at least \<open>W/2 + 1.5 \<cdot> BORDER\<close>; then
  \<^verbatim>\<open>score++\<close> runs on the score of player \<open>1 - player\<close> and the other score stays, where
  \<open>player\<close> is 1 if the ball has \<open>x > 0\<close> after the wall bounce and 0 otherwise. The score
  goes up by one if it is below \<^verbatim>\<open>INT_MAX\<close>; at \<^verbatim>\<open>INT_MAX\<close> the increment overflows, which
  the model takes to wrap to \<^verbatim>\<open>INT_MIN\<close>. A tick with a player inactive, paddle feedback
  and \<^verbatim>\<open>reset()\<close> change no score.
\<close>

theorem score_increment:
  assumes "length (player_contexts s) = 2" and "spinOnce s r = Some (s', evs)"
  shows "length (player_contexts s') = 2 \<and>
    (if active (player_contexts s ! 0) \<and> active (player_contexts s ! 1) then
       \<exists>f1 f2. bounce_walls (advance s) = Some f1 \<and> reflect_paddles f1 = Some f2 \<and>
         (let pl = (if ball_pos_x (game f1) > 0 then 1 else 0 :: nat) in
          if \<bar>ball_pos_x (game f2)\<bar> \<ge> FIELD_WIDTH * 0.5 + 1.5 * BORDER_SIZE
          then score (player_contexts s' ! (1 - pl)) = score (player_contexts s ! (1 - pl)) + 1 \<and>
               (sint (score (player_contexts s ! (1 - pl))) < 2147483647 \<longrightarrow>
                  sint (score (player_contexts s' ! (1 - pl))) = sint (score (player_contexts s ! (1 - pl))) + 1) \<and>
               (sint (score (player_contexts s ! (1 - pl))) = 2147483647 \<longrightarrow>
                  sint (score (player_contexts s' ! (1 - pl))) = - 2147483648) \<and>
               score (player_contexts s' ! pl) = score (player_contexts s ! pl) \<and>
               Score (1 - pl) \<in> set evs
          else map score (player_contexts s') = map score (player_contexts s) \<and>
               (\<forall>p. Score p \<notin> set evs))
     else map score (player_contexts s') = map score (player_contexts s)) \<and>
    map score (player_contexts (processPaddleFeedback pl' fb s)) = map score (player_contexts s) \<and>
    (\<forall>k g. reset s k = Some g \<longrightarrow> map score (player_contexts g) = map score (player_contexts s))"
  using assms by (rule score_changes)

theorem score_increment_witness:
  "length (player_contexts past_paddle) = 2 \<and> spinOnce past_paddle 0 \<noteq> None \<and>
   active (player_contexts past_paddle ! 0) \<and> active (player_contexts past_paddle ! 1) \<and>
   bounce_walls (advance past_paddle) = Some (advance past_paddle) \<and>
   reflect_paddles (advance past_paddle) = Some ((advance past_paddle)\<lparr>player := 1\<rparr>) \<and>
   ball_pos_x (game (advance past_paddle)) = 106 / 15 \<and>
   FIELD_WIDTH * 0.5 + 1.5 * BORDER_SIZE \<le> \<bar>106 / 15 :: real\<bar> \<and>
   sint (score (player_contexts past_paddle ! 0)) = 0 \<and>
   sint (score (player_contexts (fst (the (spinOnce past_paddle 0))) ! 0)) = 1 \<and>
   score (player_contexts (fst (the (spinOnce past_paddle 0))) ! 1) = score (player_contexts past_paddle ! 1) \<and>
   Score 0 \<in> set (snd (the (spinOnce past_paddle 0))) \<and>
   length (player_contexts past_paddle_at_int_max) = 2 \<and> spinOnce past_paddle_at_int_max 0 \<noteq> None \<and>
   sint (score (player_contexts past_paddle_at_int_max ! 0)) = 2147483647 \<and>
   sint (score (player_contexts (fst (the (spinOnce past_paddle_at_int_max 0))) ! 0)) = - 2147483648 \<and>
   length (player_contexts mid_field) = 2 \<and> spinOnce mid_field 0 \<noteq> None \<and>
   ball_pos_x (game (advance mid_field)) = 8 / 15 \<and>
   map score (player_contexts (fst (the (spinOnce mid_field 0)))) = map score (player_contexts mid_field)"
proof -
  have l: "length (player_contexts past_paddle) = 2"
    and a: "active (player_contexts past_paddle ! 0)" "active (player_contexts past_paddle ! 1)"
    and f: "bounce_walls (advance past_paddle) = Some (advance past_paddle)"
      "reflect_paddles (advance past_paddle) = Some ((advance past_paddle)\<lparr>player := 1\<rparr>)"
      "ball_pos_x (game (advance past_paddle)) = 106 / 15"
      "FIELD_WIDTH * 0.5 + 1.5 * BORDER_SIZE \<le> \<bar>106 / 15 :: real\<bar>"
      "sint (score (player_contexts past_paddle ! 0)) = 0"
    by (simp_all add: past_paddle_def in_play_def tick_defs field_consts Let_def)
  have n: "spinOnce past_paddle 0 \<noteq> None"
    and e: "spinOnce past_paddle 0 =
      Some (fst (the (spinOnce past_paddle 0)), snd (the (spinOnce past_paddle 0)))"
    by (simp_all add: past_paddle_tick)
  from score_increment [OF l e] a f
  have 1: "sint (score (player_contexts (fst (the (spinOnce past_paddle 0))) ! 0)) = 1 \<and>
     score (player_contexts (fst (the (spinOnce past_paddle 0))) ! 1) = score (player_contexts past_paddle ! 1) \<and>
     Score 0 \<in> set (snd (the (spinOnce past_paddle 0)))"
    by (simp add: Let_def sint_succ)
  have lm: "length (player_contexts past_paddle_at_int_max) = 2"
    and am: "active (player_contexts past_paddle_at_int_max ! 0)" "active (player_contexts past_paddle_at_int_max ! 1)"
    and fm: "bounce_walls (advance past_paddle_at_int_max) = Some (advance past_paddle_at_int_max)"
      "reflect_paddles (advance past_paddle_at_int_max) = Some ((advance past_paddle_at_int_max)\<lparr>player := 1\<rparr>)"
      "ball_pos_x (game (advance past_paddle_at_int_max)) = 106 / 15"
      "FIELD_WIDTH * 0.5 + 1.5 * BORDER_SIZE \<le> \<bar>106 / 15 :: real\<bar>"
      "sint (score (player_contexts past_paddle_at_int_max ! 0)) = 2147483647"
    by (simp_all add: past_paddle_at_int_max_def past_paddle_def in_play_def tick_defs field_consts Let_def)
  have nm: "spinOnce past_paddle_at_int_max 0 \<noteq> None"
    and em: "spinOnce past_paddle_at_int_max 0 =
      Some (fst (the (spinOnce past_paddle_at_int_max 0)), snd (the (spinOnce past_paddle_at_int_max 0)))"
    by (simp_all add: past_paddle_at_int_max_tick)
  from score_increment [OF lm em] am fm
  have 2: "sint (score (player_contexts (fst (the (spinOnce past_paddle_at_int_max 0))) ! 0)) = - 2147483648"
    by (simp add: Let_def sint_succ_max)
  have l': "length (player_contexts mid_field) = 2"
    and f': "ball_pos_x (game (advance mid_field)) = 8 / 15"
    by (simp_all add: mid_field_def in_play_def advance_simps)
  have n': "spinOnce mid_field 0 \<noteq> None"
    and e': "spinOnce mid_field 0 =
      Some (fst (the (spinOnce mid_field 0)), snd (the (spinOnce mid_field 0)))"
    by (simp_all add: mid_field_tick)
  have t': "map score (player_contexts (fst (the (spinOnce mid_field 0)))) = map score (player_contexts mid_field)"
    unfolding mid_field_tick by simp
  from score_increment [OF l' e'] l a f n 1 lm nm fm(5) 2 l' f' n' t' show ?thesis by blast
qed

text \<open>
  C6 as stated fails at \<^verbatim>\<open>INT_MAX\<close>: with \<open>2147483647\<close> points for player 0, the tick
  that takes the ball from \<open>x = 6.4\<close> past the outer boundary at \<open>x = 6.75\<close> scores for
  player 0 and leaves the score at \<open>-2147483648\<close>, not one higher.
\<close>

theorem score_overflow_counterexample:
  "well_formed past_paddle_at_int_max \<and> spinOnce past_paddle_at_int_max 0 \<noteq> None \<and>
   snd (the (spinOnce past_paddle_at_int_max 0)) = [Score 0] \<and>
   FIELD_WIDTH * 0.5 + 1.5 * BORDER_SIZE \<le> \<bar>ball_pos_x (game (advance past_paddle_at_int_max))\<bar> \<and>
   sint (score (player_contexts past_paddle_at_int_max ! 0)) = 2147483647 \<and>
   sint (score (player_contexts (fst (the (spinOnce past_paddle_at_int_max 0))) ! 0)) = - 2147483648 \<and>
   sint (score (player_contexts (fst (the (spinOnce past_paddle_at_int_max 0))) ! 0)) \<noteq>
     sint (score (player_contexts past_paddle_at_int_max ! 0)) + 1"
  unfolding past_paddle_at_int_max_tick
  by (rule conjI [OF past_paddle_at_int_max_well_formed])
    (simp add: past_paddle_at_int_max_def past_paddle_def in_play_def advance_simps field_consts)

text \<open>
  C7: in a tick of a well-formed game, as every reachable game is, with both players
  active, all three phases return. When the ball crossed a goal line within the extent of
  the paddle there, the paddle phase backs the ball up by \<open>t\<close> displacements, inverts the
  x-component of the direction, adds twice the offset from the paddle centre, in paddle
  lengths, to the y-component, and divides both by the length \<open>l\<close> of the result, which is
  not zero. If the y-component then exceeds the threshold \<open>0.707106781\<close> of the code in
  magnitude, each component becomes \<open>sin 45\<degree>\<close> with the sign it has; otherwise the
  direction stays. The threshold is below \<open>sin 45\<degree>\<close>, so a y-component that exceeds
  \<open>sin 45\<degree>\<close> is capped. Either way \<open>|direction.y| \<le> sin 45\<degree>\<close> after the paddle phase
  and after the tick, which keeps the direction of the paddle phase unless it scores.
\<close>

theorem paddle_rebound_angle:
  assumes "well_formed s"
    and "active (player_contexts s ! 0)" and "active (player_contexts s ! 1)"
  shows "\<exists>f1 f2 s' evs.
     bounce_walls (advance s) = Some f1 \<and> reflect_paddles f1 = Some f2 \<and>
     spinOnce s r = Some (s', evs) \<and>
     (\<forall>p. (let x = ball_pos_x s + speed s * ball_dir_x s; y = ball_pos_y (game f1);
               t = (if FIELD_WIDTH * 0.5 < x then (x - FIELD_WIDTH * 0.5) / (x - ball_pos_x s)
                    else if FIELD_WIDTH * 0.5 < - x then (- x - FIELD_WIDTH * 0.5) / (ball_pos_x s - x)
                    else loc_t f1);
               ax = - ball_dir_x s;
               ay = ball_dir_y (game f1) + (y - t * ball_dy f1 - p) / PADDLE_SIZE * 2;
               l = sqrt (ax * ax + ay * ay)
           in \<bar>ball_pos_x s\<bar> < FIELD_WIDTH * 0.5 \<and> \<bar>x\<bar> \<ge> FIELD_WIDTH * 0.5 \<and>
              pos (player_contexts s ! (if x > 0 then 1 else 0)) = Finite p \<and>
              p - PADDLE_SIZE * 0.5 - 0.5 * BORDER_SIZE < y \<and> y < p + PADDLE_SIZE * 0.5 + 0.5 * BORDER_SIZE \<longrightarrow>
              l \<noteq> 0 \<and>
              (0.707106781 < \<bar>ay / l\<bar> \<longrightarrow>
                 ball_dir_x (game f2) = (if 0 < ax / l then sin (pi / 4) else - sin (pi / 4)) \<and>
                 ball_dir_y (game f2) = (if 0 < ay / l then sin (pi / 4) else - sin (pi / 4))) \<and>
              (\<bar>ay / l\<bar> \<le> 0.707106781 \<longrightarrow>
                 ball_dir_x (game f2) = ax / l \<and> ball_dir_y (game f2) = ay / l) \<and>
              \<bar>ball_dir_y (game f2)\<bar> \<le> sin (pi / 4) \<and> \<bar>ball_dir_y s'\<bar> \<le> sin (pi / 4) \<and>
              ((\<forall>q. Score q \<notin> set evs) \<longrightarrow>
                 ball_dir_x s' = ball_dir_x (game f2) \<and> ball_dir_y s' = ball_dir_y (game f2)))) \<and>
     0.707106781 < sin (pi / 4)"
  using assms by (rule paddle_rebound_direction)

theorem paddle_rebound_angle_witness:
  "well_formed before_paddle_edge \<and>
   active (player_contexts before_paddle_edge ! 0) \<and> active (player_contexts before_paddle_edge ! 1) \<and>
   bounce_walls (advance before_paddle_edge) = Some (advance before_paddle_edge) \<and>
   \<bar>ball_pos_x before_paddle_edge\<bar> < FIELD_WIDTH * 0.5 \<and>
   ball_pos_x before_paddle_edge + speed before_paddle_edge * ball_dir_x before_paddle_edge = 6.4 \<and>
   pos (player_contexts before_paddle_edge ! 1) = Finite 0 \<and>
   ball_pos_y (game (advance before_paddle_edge)) = 1.2 \<and>
   (1.2 :: real) < 0 + PADDLE_SIZE * 0.5 + 0.5 * BORDER_SIZE \<and>
   sqrt (- 0.8 * - 0.8 + 1.5 * 1.5) = 1.7 \<and> (0.707106781 :: real) < \<bar>1.5 / 1.7\<bar> \<and>
   ball_dir_x (game (the (reflect_paddles (advance before_paddle_edge)))) = - sin (pi / 4) \<and>
   ball_dir_y (game (the (reflect_paddles (advance before_paddle_edge)))) = sin (pi / 4) \<and>
   spinOnce before_paddle_edge 0 \<noteq> None \<and>
   ball_dir_x (fst (the (spinOnce before_paddle_edge 0))) = - sin (pi / 4) \<and>
   ball_dir_y (fst (the (spinOnce before_paddle_edge 0))) = sin (pi / 4) \<and>
   well_formed before_paddle \<and>
   active (player_contexts before_paddle ! 0) \<and> active (player_contexts before_paddle ! 1) \<and>
   bounce_walls (advance before_paddle) = Some (advance before_paddle) \<and>
   spinOnce before_paddle 0 \<noteq> None \<and>
   ball_dir_x (fst (the (spinOnce before_paddle 0))) = - 1 \<and>
   ball_dir_y (fst (the (spinOnce before_paddle 0))) = 0"
proof -
  have a: "active (player_contexts before_paddle_edge ! 0)" "active (player_contexts before_paddle_edge ! 1)"
    and w: "bounce_walls (advance before_paddle_edge) = Some (advance before_paddle_edge)"
    and v: "ball_pos_x before_paddle_edge = 88 / 15" "speed before_paddle_edge = 2 / 3"
      "ball_dir_x before_paddle_edge = 0.8" "ball_dir_y (game (advance before_paddle_edge)) = 0.6"
      "ball_pos_y (game (advance before_paddle_edge)) = 1.2" "ball_dy (advance before_paddle_edge) = 0.4"
      "pos (player_contexts before_paddle_edge ! 1) = Finite 0"
      "pos (player_contexts before_paddle_edge ! Suc 0) = Finite 0"
    by (simp_all add: before_paddle_edge_def in_play_def advance_simps field_consts bounce_walls_within)
  have n: "spinOnce before_paddle_edge 0 \<noteq> None"
    and e: "snd (the (spinOnce before_paddle_edge 0)) = [PaddleBounce]"
    by (simp_all add: before_paddle_edge_tick)
  have q: "sqrt (- 0.8 * - 0.8 + 1.5 * 1.5) = 1.7" using sqrt_289_100 by simp
  from paddle_rebound_angle [OF examples_well_formed(6) a, of 0]
  obtain f2 s' evs where f2: "reflect_paddles (advance before_paddle_edge) = Some f2"
    and step: "spinOnce before_paddle_edge 0 = Some (s', evs)"
    and r: "\<forall>p. (let x = ball_pos_x before_paddle_edge + speed before_paddle_edge * ball_dir_x before_paddle_edge;
               y = ball_pos_y (game (advance before_paddle_edge));
               t = (if FIELD_WIDTH * 0.5 < x then (x - FIELD_WIDTH * 0.5) / (x - ball_pos_x before_paddle_edge)
                    else if FIELD_WIDTH * 0.5 < - x then (- x - FIELD_WIDTH * 0.5) / (ball_pos_x before_paddle_edge - x)
                    else loc_t (advance before_paddle_edge));
               ax = - ball_dir_x before_paddle_edge;
               ay = ball_dir_y (game (advance before_paddle_edge)) +
                    (y - t * ball_dy (advance before_paddle_edge) - p) / PADDLE_SIZE * 2;
               l = sqrt (ax * ax + ay * ay)
           in \<bar>ball_pos_x before_paddle_edge\<bar> < FIELD_WIDTH * 0.5 \<and> \<bar>x\<bar> \<ge> FIELD_WIDTH * 0.5 \<and>
              pos (player_contexts before_paddle_edge ! (if x > 0 then 1 else 0)) = Finite p \<and>
              p - PADDLE_SIZE * 0.5 - 0.5 * BORDER_SIZE < y \<and> y < p + PADDLE_SIZE * 0.5 + 0.5 * BORDER_SIZE \<longrightarrow>
              l \<noteq> 0 \<and>
              (0.707106781 < \<bar>ay / l\<bar> \<longrightarrow>
                 ball_dir_x (game f2) = (if 0 < ax / l then sin (pi / 4) else - sin (pi / 4)) \<and>
                 ball_dir_y (game f2) = (if 0 < ay / l then sin (pi / 4) else - sin (pi / 4))) \<and>
              (\<bar>ay / l\<bar> \<le> 0.707106781 \<longrightarrow>
                 ball_dir_x (game f2) = ax / l \<and> ball_dir_y (game f2) = ay / l) \<and>
              \<bar>ball_dir_y (game f2)\<bar> \<le> sin (pi / 4) \<and> \<bar>ball_dir_y s'\<bar> \<le> sin (pi / 4) \<and>
              ((\<forall>q. Score q \<notin> set evs) \<longrightarrow>
                 ball_dir_x s' = ball_dir_x (game f2) \<and> ball_dir_y s' = ball_dir_y (game f2)))"
    unfolding w by auto
  from step e have ns: "\<forall>q. Score q \<notin> set evs" by simp
  from r [rule_format, of 0] ns
  have "ball_dir_x (game f2) = - sin (pi / 4) \<and> ball_dir_y (game f2) = sin (pi / 4) \<and>
        ball_dir_x s' = - sin (pi / 4) \<and> ball_dir_y s' = sin (pi / 4)"
    unfolding Let_def v by (simp add: field_consts sqrt_289_100 v(8))
  with f2 step have 1: "ball_dir_x (game (the (reflect_paddles (advance before_paddle_edge)))) = - sin (pi / 4) \<and>
   ball_dir_y (game (the (reflect_paddles (advance before_paddle_edge)))) = sin (pi / 4) \<and>
   ball_dir_x (fst (the (spinOnce before_paddle_edge 0))) = - sin (pi / 4) \<and>
   ball_dir_y (fst (the (spinOnce before_paddle_edge 0))) = sin (pi / 4)"
    by simp
  have g: "\<bar>ball_pos_x before_paddle_edge\<bar> < FIELD_WIDTH * 0.5"
   "ball_pos_x before_paddle_edge + speed before_paddle_edge * ball_dir_x before_paddle_edge = 6.4"
   "(1.2 :: real) < 0 + PADDLE_SIZE * 0.5 + 0.5 * BORDER_SIZE"
   "(0.707106781 :: real) < \<bar>1.5 / 1.7\<bar>"
    by (simp_all add: v field_consts)
  have a': "active (player_contexts before_paddle ! 0)" "active (player_contexts before_paddle ! 1)"
    and w': "bounce_walls (advance before_paddle) = Some (advance before_paddle)"
    by (simp_all add: before_paddle_def in_play_def advance_simps field_consts bounce_walls_within)
  have 2: "spinOnce before_paddle 0 \<noteq> None"
   "ball_dir_x (fst (the (spinOnce before_paddle 0))) = - 1"
   "ball_dir_y (fst (the (spinOnce before_paddle 0))) = 0"
    unfolding before_paddle_tick by (simp_all add: before_paddle_def in_play_def)
  from 1 g q a w v(5,7) n a' w' 2 examples_well_formed(5,6) show ?thesis by blast
qed

text \<open>
  C8: in every game reachable from the constructor (whose \<^verbatim>\<open>reset()\<close> serves the
  first ball) by ticks and paddle feedback the direction has unit length; the next tick
  yields a game, whose direction has unit length; and so has the direction after the wall
  bounce and after the paddle bounce of that tick, and after a \<^verbatim>\<open>reset()\<close>.
\<close>

theorem direction_unit_length:
  assumes "reachable s"
  shows "(ball_dir_x s)\<^sup>2 + (ball_dir_y s)\<^sup>2 = 1 \<and>
         (\<exists>s' evs. spinOnce s r = Some (s', evs) \<and> (ball_dir_x s')\<^sup>2 + (ball_dir_y s')\<^sup>2 = 1) \<and>
         (\<forall>f1. bounce_walls (advance s) = Some f1 \<longrightarrow>
            (ball_dir_x (game f1))\<^sup>2 + (ball_dir_y (game f1))\<^sup>2 = 1 \<and>
            (\<forall>f2. reflect_paddles f1 = Some f2 \<longrightarrow>
               (ball_dir_x (game f2))\<^sup>2 + (ball_dir_y (game f2))\<^sup>2 = 1)) \<and>
         (\<forall>k s'. reset s k = Some s' \<longrightarrow> (ball_dir_x s')\<^sup>2 + (ball_dir_y s')\<^sup>2 = 1)"
proof -
  from assms have u: "unit_dir s" by (rule reachable_unit)
  from assms have "well_formed s" by (rule reachable_well_formed)
  then obtain s' evs where step: "spinOnce s r = Some (s', evs)" using spinOnce_total by blast
  from step u have "unit_dir s'" by (rule spinOnce_unit)
  with step have t: "\<exists>s' evs. spinOnce s r = Some (s', evs) \<and> unit_dir s'" by blast
  from u have "unit_dir (game (advance s))" by (simp add: advance_unit)
  then have "unit_dir (game f1)" if "bounce_walls (advance s) = Some f1" for f1
    using that by (rule bounce_walls_unit [rotated])
  moreover from this have "unit_dir (game f2)"
    if "bounce_walls (advance s) = Some f1" "reflect_paddles f1 = Some f2" for f1 f2
    using that by (blast intro: reflect_paddles_unit)
  moreover have "unit_dir s'" if "reset s k = Some s'" for k s'
    using that by (rule reset_unit)
  ultimately show ?thesis using u t unfolding unit_dir_def by blast
qed

theorem direction_unit_length_witness:
  "reachable first_serve \<and> (ball_dir_x first_serve)\<^sup>2 + (ball_dir_y first_serve)\<^sup>2 = 1 \<and>
   spinOnce first_serve 0 \<noteq> None"
proof -
  have "reachable kickoff" using PongGame_kickoff by (rule reachable.construct)
  then have "reachable first_serve" unfolding first_serve_def by (intro reachable.feedback)
  with direction_unit_length [of first_serve 0] show ?thesis by auto
qed

text \<open>
  C9, as the code has it. The y-coordinate of the pose is a \<^verbatim>\<open>float64\<close>. For a player 0 or
  1 and a pose whose y-coordinate is not a NaN, be it a number or an infinity, the paddle
  position stored for that player is a number within \<open>[-(H - PADDLE)/2, (H - PADDLE)/2]\<close>.
  For a NaN both comparisons of the clamp are false, and the NaN is stored. Neither the
  ball (position, previous position, direction, speed) nor any score changes.
\<close>

theorem processPaddleFeedback_clamps:
  assumes "pl < 2" and "length (player_contexts s) = 2"
  shows "(position_y (pose fb) = NaN \<longrightarrow> pos (player_contexts (processPaddleFeedback pl fb s) ! pl) = NaN) \<and>
         (position_y (pose fb) \<noteq> NaN \<longrightarrow>
            (\<exists>p. pos (player_contexts (processPaddleFeedback pl fb s) ! pl) = Finite p \<and>
                 - ((FIELD_HEIGHT - PADDLE_SIZE) / 2) \<le> p \<and> p \<le> (FIELD_HEIGHT - PADDLE_SIZE) / 2)) \<and>
         ball_pos_x (processPaddleFeedback pl fb s) = ball_pos_x s \<and>
         ball_pos_y (processPaddleFeedback pl fb s) = ball_pos_y s \<and>
         last_ball_pos_x (processPaddleFeedback pl fb s) = last_ball_pos_x s \<and>
         last_ball_pos_y (processPaddleFeedback pl fb s) = last_ball_pos_y s \<and>
         ball_dir_x (processPaddleFeedback pl fb s) = ball_dir_x s \<and>
         ball_dir_y (processPaddleFeedback pl fb s) = ball_dir_y s \<and>
         speed (processPaddleFeedback pl fb s) = speed s \<and>
         map score (player_contexts (processPaddleFeedback pl fb s)) = map score (player_contexts s)"
  using assms by (rule processPaddleFeedback_frame)

theorem processPaddleFeedback_clamps_witness:
  "length (player_contexts before_paddle) = 2 \<and>
   position_y (pose (drag_to (Finite 1000))) \<noteq> NaN \<and>
   pos (player_contexts (processPaddleFeedback 1 (drag_to (Finite 1000)) before_paddle) ! 1) = Finite 3 \<and>
   position_y (pose (drag_to NegInf)) \<noteq> NaN \<and>
   pos (player_contexts (processPaddleFeedback 1 (drag_to NegInf) before_paddle) ! 1) = Finite (- 3) \<and>
   position_y (pose (drag_to (Finite 1))) \<noteq> NaN \<and>
   pos (player_contexts (processPaddleFeedback 1 (drag_to (Finite 1)) before_paddle) ! 1) = Finite 1 \<and>
   position_y (pose (drag_to NaN)) = NaN \<and>
   pos (player_contexts (processPaddleFeedback 1 (drag_to NaN) before_paddle) ! 1) = NaN \<and>
   ball_pos_x (processPaddleFeedback 1 (drag_to (Finite 1000)) before_paddle) = 5.9 \<and>
   map score (player_contexts (processPaddleFeedback 1 (drag_to (Finite 1000)) before_paddle)) = [0, 0]"
proof -
  have a: "(1::nat) < 2" by simp
  have b: "length (player_contexts before_paddle) = 2" by (simp add: before_paddle_def in_play_def)
  show ?thesis
    using processPaddleFeedback_clamps [OF a b, of "drag_to (Finite 1000)"]
      processPaddleFeedback_clamps [OF a b, of "drag_to NegInf"]
      processPaddleFeedback_clamps [OF a b, of "drag_to (Finite 1)"]
      processPaddleFeedback_clamps [OF a b, of "drag_to NaN"]
    by (simp add: processPaddleFeedback_def drag_to_def before_paddle_def in_play_def field_consts Let_def)
qed

text \<open>
  C9 as stated fails for a NaN: the paddle position stored is the NaN, which is within
  no interval, and from then on no ball is reflected off that paddle.
\<close>

theorem paddle_position_nan_counterexample:
  "well_formed (processPaddleFeedback 1 (drag_to NaN) before_paddle) \<and>
   position_y (pose (drag_to NaN)) = NaN \<and>
   \<not> ieee_less (Finite ((FIELD_HEIGHT - PADDLE_SIZE) * 0.5)) (position_y (pose (drag_to NaN))) \<and>
   \<not> ieee_less (position_y (pose (drag_to NaN))) (Finite ((FIELD_HEIGHT - PADDLE_SIZE) * - 0.5)) \<and>
   pos (player_contexts (processPaddleFeedback 1 (drag_to NaN) before_paddle) ! 1) = NaN \<and>
   server (processPaddleFeedback 1 (drag_to NaN) before_paddle) ''paddle1_display'' =
     Some \<lparr>position_x = Finite 6.5, position_y = NaN\<rparr> \<and>
   spinOnce (processPaddleFeedback 1 (drag_to NaN) before_paddle) 0 \<noteq> None \<and>
   snd (the (spinOnce (processPaddleFeedback 1 (drag_to NaN) before_paddle) 0)) = []"
  by (rule conjI [OF processPaddleFeedback_well_formed [OF examples_well_formed(5)]])
    (simp add: processPaddleFeedback_def drag_to_def before_paddle_def in_play_def tick_defs
      field_consts Let_def)



end
